theory Spec2Isabelle
  imports Main
begin

section \<open>JavaScript values as the diagram compiler sees them\<close>

text \<open>
  The schema reaches \<open>generateMermaidFromSchema\<close> as the default export of a dynamically
  imported module and is typed \<open>any\<close>: every property read, truthiness test and string
  interpolation of the source is a run-time operation on an arbitrary value. The model
  therefore works on a datatype of plain data values.

  \<^item> A \<open>Number\<close> is carried as the decimal text that JavaScript's number-to-string
    conversion gives it (\<open>''1.5''\<close>, \<open>''NaN''\<close>; both zeros are \<open>''0''\<close>). The program only
    interpolates numbers and tests them for truthiness, and both are functions of that text.
  \<^item> An \<open>Obj\<close> is a plain object: its own enumerable string-keyed properties, listed in
    the order \<open>Object.entries\<close> enumerates them, each key once. Every property holds a
    data value: functions, symbols and accessors are outside the model.
  \<^item> Strings are byte lists, in UTF-8.
\<close>

datatype jsval =
    Undefined
  | Null
  | Bool bool
  | Number string
  | BigInt int
  | Str string
  | Arr "jsval list"
  | Obj "(string \<times> jsval) list"

text \<open>
  What the run time throws. A property read on \<open>undefined\<close> or \<open>null\<close>,
  \<open>Object.entries\<close> of them, a call of something that is not a function and the
  conversion to a string of an object that cannot be converted throw a \<open>TypeError\<close>;
  a call for which the call stack has no room left throws a \<open>RangeError\<close>;
  \<open>ImportRejected\<close> stands for any rejection of the dynamic \<open>import\<close> itself.
\<close>

datatype thrown = TypeError | RangeError | ImportRejected

subsection \<open>Decimal text of a natural number\<close>

definition digitChar :: "nat \<Rightarrow> char" where
  "digitChar d = ''0123456789'' ! d"

fun showNat :: "nat \<Rightarrow> string" where
  "showNat n = (if n < 10 then [digitChar n] else showNat (n div 10) @ [digitChar (n mod 10)])"

declare showNat.simps [simp del]

subsection \<open>Conversions and property access\<close>

text \<open>\<open>Array.prototype.join\<close> on strings that are already converted.\<close>

fun joinWith :: "string \<Rightarrow> string list \<Rightarrow> string" where
  "joinWith sep [] = []"
| "joinWith sep [s] = s"
| "joinWith sep (s # t # ss) = s @ sep @ joinWith sep (t # ss)"

text \<open>
  The string conversion a template literal applies to an interpolated value.

  A plain object converts through its \<open>toString\<close> property and then its \<open>valueOf\<close>
  property. Without an own \<open>toString\<close> it inherits the one that answers
  \<open>[object Object]\<close>. With an own \<open>toString\<close>, which in this model holds a data value
  and cannot be called, the conversion goes on to \<open>valueOf\<close>; that one is either own, and
  cannot be called, or inherited, and returns the object itself; so the conversion throws.

  An array converts by joining its elements with a comma. \<open>elementTexts\<close> are the texts
  that a join puts between the separators: the empty string for \<open>undefined\<close> and \<open>null\<close>,
  the conversion of the element otherwise, from left to right, so that the first element
  that cannot be converted ends the join.
\<close>

fun ToString :: "jsval \<Rightarrow> thrown + string"
  and elementTexts :: "jsval list \<Rightarrow> thrown + string list" where
  "ToString Undefined = Inr ''undefined''"
| "ToString Null = Inr ''null''"
| "ToString (Bool b) = Inr (if b then ''true'' else ''false'')"
| "ToString (Number r) = Inr r"
| "ToString (BigInt i) = Inr (if i < 0 then ''-'' @ showNat (nat (- i)) else showNat (nat i))"
| "ToString (Str s) = Inr s"
| "ToString (Arr xs) =
     (case elementTexts xs of Inl e \<Rightarrow> Inl e | Inr ts \<Rightarrow> Inr (joinWith '','' ts))"
| "ToString (Obj ps) =
     (if ''toString'' \<in> fst ` set ps then Inl TypeError else Inr ''[object Object]'')"
| "elementTexts [] = Inr []"
| "elementTexts (x # xs) =
     (case (if x = Undefined \<or> x = Null then Inr [] else ToString x) of
        Inl e \<Rightarrow> Inl e
      | Inr t \<Rightarrow> (case elementTexts xs of Inl e \<Rightarrow> Inl e | Inr ts \<Rightarrow> Inr (t # ts)))"

text \<open>\<open>arr.join(sep)\<close> on arbitrary elements.\<close>

definition join :: "string \<Rightarrow> jsval list \<Rightarrow> thrown + string" where
  "join sep xs = (case elementTexts xs of Inl e \<Rightarrow> Inl e | Inr ts \<Rightarrow> Inr (joinWith sep ts))"

text \<open>Truthiness: what \<open>!v\<close>, \<open>v || d\<close>, \<open>a && b\<close> and \<open>if (v)\<close> test.\<close>

fun truthy :: "jsval \<Rightarrow> bool" where
  "truthy Undefined = False"
| "truthy Null = False"
| "truthy (Bool b) = b"
| "truthy (Number r) = (r \<noteq> ''0'' \<and> r \<noteq> ''NaN'')"
| "truthy (BigInt i) = (i \<noteq> 0)"
| "truthy (Str s) = (s \<noteq> [])"
| "truthy (Arr xs) = True"
| "truthy (Obj ps) = True"

fun lookup :: "(string \<times> jsval) list \<Rightarrow> string \<Rightarrow> jsval" where
  "lookup [] k = Undefined"
| "lookup ((k', v) # ps) k = (if k' = k then v else lookup ps k)"

text \<open>
  \<open>v.k\<close> on a value that is neither \<open>undefined\<close> nor \<open>null\<close>, for the property names this
  program reads (\<open>default\<close>, \<open>tables\<close>, \<open>validator\<close>, \<open>fields\<close>, \<open>kind\<close>, \<open>tableName\<close>,
  \<open>value\<close>, \<open>element\<close>, \<open>key\<close>, \<open>members\<close>): none of them is a property of a primitive or
  of an array, and a plain object has it exactly when it is an own property.
\<close>

fun propOf :: "jsval \<Rightarrow> string \<Rightarrow> jsval" where
  "propOf (Obj ps) k = lookup ps k"
| "propOf v k = Undefined"

text \<open>\<open>v.k\<close> in general: reading a property of \<open>undefined\<close> or \<open>null\<close> throws.\<close>

definition getProp :: "jsval \<Rightarrow> string \<Rightarrow> thrown + jsval" where
  "getProp v k = (if v = Undefined \<or> v = Null then Inl TypeError else Inr (propOf v k))"

text \<open>
  \<open>Object.entries(v)\<close>: throws on \<open>undefined\<close> and \<open>null\<close>; an array and a string
  enumerate their indices (for a string, exact on ASCII text, where a byte is a
  character); the other primitives have no own enumerable properties.
\<close>

fun Object_entries :: "jsval \<Rightarrow> thrown + (string \<times> jsval) list" where
  "Object_entries Undefined = Inl TypeError"
| "Object_entries Null = Inl TypeError"
| "Object_entries (Obj ps) = Inr ps"
| "Object_entries (Arr xs) = Inr (zip (map showNat [0..<length xs]) xs)"
| "Object_entries (Str s) = Inr (zip (map showNat [0..<length s]) (map (\<lambda>c. Str [c]) s))"
| "Object_entries v = Inr []"

text \<open>
  \<open>s.toUpperCase()\<close> on a string. On ASCII text it maps the letters \<open>a\<close> to \<open>z\<close> to
  \<open>A\<close> to \<open>Z\<close>, one by one, and leaves every other character. On a text with a
  character beyond ASCII it is the case mapping of Unicode, which is not written out here:
  it is the first argument, \<open>unicodeUpper\<close>, a function of the run time that every
  definition below which converts a name takes along.
\<close>

definition upperChar :: "char \<Rightarrow> char" where
  "upperChar c =
     (case map_of (zip ''abcdefghijklmnopqrstuvwxyz'' ''ABCDEFGHIJKLMNOPQRSTUVWXYZ'') c of
        Some u \<Rightarrow> u
      | None \<Rightarrow> c)"

definition isAscii :: "string \<Rightarrow> bool" where
  "isAscii s = list_all (\<lambda>c. \<not> digit7 c) s"

definition toUpperCase :: "(string \<Rightarrow> string) \<Rightarrow> string \<Rightarrow> string" where
  "toUpperCase unicodeUpper s = (if isAscii s then map upperChar s else unicodeUpper s)"

text \<open>
  \<open>v.toUpperCase()\<close> on an arbitrary value: only a string has the method; on anything
  else the call throws (\<open>undefined\<close> is not a function, or the read itself fails).
\<close>

fun call_toUpperCase :: "(string \<Rightarrow> string) \<Rightarrow> jsval \<Rightarrow> thrown + string" where
  "call_toUpperCase unicodeUpper (Str s) = Inr (toUpperCase unicodeUpper s)"
| "call_toUpperCase unicodeUpper v = Inl TypeError"

section \<open>The validator classifier: \<open>getFieldType\<close>\<close>

lemma size_lookup: "size (lookup ps k) < Suc (size_list (size_prod (\<lambda>_. 0) size) ps)"
  by (induction ps) auto

lemma size_prop_kind: "propOf v k = Str s \<Longrightarrow> size (propOf v k') < size v"
  using size_lookup by (cases v) auto

text \<open>
  The source's \<open>switch (validator.kind)\<close> compares with \<open>===\<close>, so a case is taken exactly
  when the kind is that string. A template literal evaluates and converts its
  interpolations from left to right. \<open>getFieldTypes\<close> is \<open>members.map(getFieldType)\<close>: the
  members are labelled from left to right and the first throw ends the loop. The function
  returns a value, not a string: the \<open>default\<close> branch hands back \<open>validator.kind\<close> itself
  when it is truthy.

  \<open>getFieldType\<close> is the classifier on a call stack that does not run out;
  \<open>getFieldTypeOnStack\<close> below counts the room, and the two agree on every value
  whenever the counted one does not run out.
\<close>

function getFieldType :: "jsval \<Rightarrow> thrown + jsval"
  and getFieldTypes :: "jsval list \<Rightarrow> thrown + jsval list" where
  "getFieldType validator =
     (if \<not> truthy validator then Inr (Str ''unknown'')
      else let kind = propOf validator ''kind'' in
        if kind = Str ''string'' then Inr (Str ''string'')
        else if kind = Str ''id'' then
          (case ToString (propOf validator ''tableName'') of
             Inl e \<Rightarrow> Inl e
           | Inr t \<Rightarrow> Inr (Str (''id('' @ t @ '')'')))
        else if kind = Str ''float64'' then Inr (Str ''number'')
        else if kind = Str ''int64'' then Inr (Str ''int'')
        else if kind = Str ''boolean'' then Inr (Str ''boolean'')
        else if kind = Str ''bytes'' then Inr (Str ''bytes'')
        else if kind = Str ''null'' then Inr (Str ''null'')
        else if kind = Str ''any'' then Inr (Str ''any'')
        else if kind = Str ''object'' then Inr (Str ''object'')
        else if kind = Str ''literal'' then
          (case ToString (propOf validator ''value'') of
             Inl e \<Rightarrow> Inl e
           | Inr t \<Rightarrow> Inr (Str t))
        else if kind = Str ''array'' then
          (case getFieldType (propOf validator ''element'') of
             Inl e \<Rightarrow> Inl e
           | Inr r \<Rightarrow>
               (case ToString r of
                  Inl e \<Rightarrow> Inl e
                | Inr t \<Rightarrow> Inr (Str (t @ ''[]''))))
        else if kind = Str ''record'' then
          (case getFieldType (propOf validator ''key'') of
             Inl e \<Rightarrow> Inl e
           | Inr rk \<Rightarrow>
               (case ToString rk of
                  Inl e \<Rightarrow> Inl e
                | Inr k \<Rightarrow>
                    (case getFieldType (propOf validator ''value'') of
                       Inl e \<Rightarrow> Inl e
                     | Inr rv \<Rightarrow>
                         (case ToString rv of
                            Inl e \<Rightarrow> Inl e
                          | Inr v \<Rightarrow> Inr (Str (''record('' @ k @ ''_'' @ v @ '')''))))))
        else if kind = Str ''union'' then
          (case propOf validator ''members'' of
             Arr ms \<Rightarrow>
               (case getFieldTypes ms of
                  Inl e \<Rightarrow> Inl e
                | Inr rs \<Rightarrow>
                    (case join ''_or_'' rs of
                       Inl e \<Rightarrow> Inl e
                     | Inr t \<Rightarrow> Inr (Str (''union('' @ t @ '')''))))
           | _ \<Rightarrow> Inl TypeError)
        else Inr (if truthy kind then kind else Str ''unknown''))"
| "getFieldTypes [] = Inr []"
| "getFieldTypes (v # vs) =
     (case getFieldType v of
        Inl e \<Rightarrow> Inl e
      | Inr r \<Rightarrow> (case getFieldTypes vs of Inl e \<Rightarrow> Inl e | Inr rs \<Rightarrow> Inr (r # rs)))"
  by pat_completeness auto

termination
proof (relation "measure (case_sum size (size_list size))", goal_cases)
  case 1
  show ?case by simp
next
  case (2 validator kind)
  then have "propOf validator ''kind'' = Str ''array''" by simp
  then show ?case by (simp add: size_prop_kind)
next
  case (3 validator kind)
  then have "propOf validator ''kind'' = Str ''record''" by simp
  then show ?case by (simp add: size_prop_kind)
next
  case (4 validator kind rk k)
  then have "propOf validator ''kind'' = Str ''record''" by simp
  then show ?case by (simp add: size_prop_kind)
next
  case (5 validator kind ms)
  then have "propOf validator ''kind'' = Str ''union''" by simp
  then have "size (propOf validator ''members'') < size validator" by (rule size_prop_kind)
  with 5 show ?case by simp
next
  case (6 v vs)
  show ?case by simp
next
  case (7 v vs r)
  show ?case by simp
qed

declare getFieldType.simps [simp del]

text \<open>
  The classifier with the call stack counted: \<open>room\<close> is the number of nested calls of
  \<open>getFieldType\<close> that the stack can still take. A call with no room left throws a
  \<open>RangeError\<close>; a call made from within a call, directly or as the callback of \<open>map\<close>,
  has one less.
\<close>

fun getFieldTypeOnStack :: "nat \<Rightarrow> jsval \<Rightarrow> thrown + jsval"
  and getFieldTypesOnStack :: "nat \<Rightarrow> jsval list \<Rightarrow> thrown + jsval list" where
  "getFieldTypeOnStack 0 validator = Inl RangeError"
| "getFieldTypeOnStack (Suc room) validator =
     (if \<not> truthy validator then Inr (Str ''unknown'')
      else let kind = propOf validator ''kind'' in
        if kind = Str ''string'' then Inr (Str ''string'')
        else if kind = Str ''id'' then
          (case ToString (propOf validator ''tableName'') of
             Inl e \<Rightarrow> Inl e
           | Inr t \<Rightarrow> Inr (Str (''id('' @ t @ '')'')))
        else if kind = Str ''float64'' then Inr (Str ''number'')
        else if kind = Str ''int64'' then Inr (Str ''int'')
        else if kind = Str ''boolean'' then Inr (Str ''boolean'')
        else if kind = Str ''bytes'' then Inr (Str ''bytes'')
        else if kind = Str ''null'' then Inr (Str ''null'')
        else if kind = Str ''any'' then Inr (Str ''any'')
        else if kind = Str ''object'' then Inr (Str ''object'')
        else if kind = Str ''literal'' then
          (case ToString (propOf validator ''value'') of
             Inl e \<Rightarrow> Inl e
           | Inr t \<Rightarrow> Inr (Str t))
        else if kind = Str ''array'' then
          (case getFieldTypeOnStack room (propOf validator ''element'') of
             Inl e \<Rightarrow> Inl e
           | Inr r \<Rightarrow>
               (case ToString r of
                  Inl e \<Rightarrow> Inl e
                | Inr t \<Rightarrow> Inr (Str (t @ ''[]''))))
        else if kind = Str ''record'' then
          (case getFieldTypeOnStack room (propOf validator ''key'') of
             Inl e \<Rightarrow> Inl e
           | Inr rk \<Rightarrow>
               (case ToString rk of
                  Inl e \<Rightarrow> Inl e
                | Inr k \<Rightarrow>
                    (case getFieldTypeOnStack room (propOf validator ''value'') of
                       Inl e \<Rightarrow> Inl e
                     | Inr rv \<Rightarrow>
                         (case ToString rv of
                            Inl e \<Rightarrow> Inl e
                          | Inr v \<Rightarrow> Inr (Str (''record('' @ k @ ''_'' @ v @ '')''))))))
        else if kind = Str ''union'' then
          (case propOf validator ''members'' of
             Arr ms \<Rightarrow>
               (case getFieldTypesOnStack room ms of
                  Inl e \<Rightarrow> Inl e
                | Inr rs \<Rightarrow>
                    (case join ''_or_'' rs of
                       Inl e \<Rightarrow> Inl e
                     | Inr t \<Rightarrow> Inr (Str (''union('' @ t @ '')''))))
           | _ \<Rightarrow> Inl TypeError)
        else Inr (if truthy kind then kind else Str ''unknown''))"
| "getFieldTypesOnStack room [] = Inr []"
| "getFieldTypesOnStack room (v # vs) =
     (case getFieldTypeOnStack room v of
        Inl e \<Rightarrow> Inl e
      | Inr r \<Rightarrow>
          (case getFieldTypesOnStack room vs of Inl e \<Rightarrow> Inl e | Inr rs \<Rightarrow> Inr (r # rs)))"

declare getFieldTypeOnStack.simps(2) [simp del]

section \<open>The diagram compiler\<close>

text \<open>
  An element of the source's local array \<open>relationships\<close>. The fields are the source's
  \<open>from\<close>, \<open>to\<close> and \<open>field\<close>. The source pushes \<open>validator.tableName\<close> as it found it,
  whatever its run-time type, so \<open>rel_to\<close> is a value.
\<close>

record relationship =
  rel_from :: string
  rel_to :: jsval
  rel_field :: string

text \<open>
  The inner loop, \<open>for (const [fieldName, validator] of Object.entries(fields))\<close>, with the
  two variables it updates, \<open>mermaid\<close> and \<open>relationships\<close>, passed along. The template
  literal converts \<open>typeStr\<close> to a string. The read \<open>validator.kind\<close> of the relationship
  test is outside \<open>getFieldType\<close> and has no guard of its own.
\<close>

fun fieldsLoop ::
  "string \<Rightarrow> (string \<times> jsval) list \<Rightarrow> string \<times> relationship list
     \<Rightarrow> thrown + string \<times> relationship list" where
  "fieldsLoop tableName [] (mermaid, relationships) = Inr (mermaid, relationships)"
| "fieldsLoop tableName ((fieldName, validator) # rest) (mermaid, relationships) =
     (case getFieldType validator of
        Inl e \<Rightarrow> Inl e
      | Inr typeStr \<Rightarrow>
          (case ToString typeStr of
             Inl e \<Rightarrow> Inl e
           | Inr typeText \<Rightarrow>
               (let mermaid' = mermaid @ ''    '' @ typeText @ '' '' @ fieldName @ ''\<newline>'' in
                case getProp validator ''kind'' of
                  Inl e \<Rightarrow> Inl e
                | Inr kind \<Rightarrow>
                    if kind = Str ''id'' \<and> truthy (propOf validator ''tableName'') then
                      fieldsLoop tableName rest
                        (mermaid',
                         relationships @
                           [\<lparr>rel_from = tableName, rel_to = propOf validator ''tableName'',
                             rel_field = fieldName\<rparr>])
                    else fieldsLoop tableName rest (mermaid', relationships))))"

text \<open>The outer loop, \<open>for (const [tableName, tableDef] of Object.entries(tables))\<close>.\<close>

fun tablesLoop ::
  "(string \<Rightarrow> string) \<Rightarrow> (string \<times> jsval) list \<Rightarrow> string \<times> relationship list
     \<Rightarrow> thrown + string \<times> relationship list" where
  "tablesLoop U [] (mermaid, relationships) = Inr (mermaid, relationships)"
| "tablesLoop U ((tableName, tableDef) # rest) (mermaid, relationships) =
     (let mermaid1 = mermaid @ toUpperCase U tableName @ '' {\<newline>'' in
      case getProp tableDef ''validator'' of
        Inl e \<Rightarrow> Inl e
      | Inr validator \<Rightarrow>
          (case getProp validator ''fields'' of
             Inl e \<Rightarrow> Inl e
           | Inr fields' \<Rightarrow>
               (case (if truthy fields' then
                        (case Object_entries fields' of
                           Inl e \<Rightarrow> Inl e
                         | Inr entries \<Rightarrow> fieldsLoop tableName entries (mermaid1, relationships))
                      else Inr (mermaid1, relationships)) of
                  Inl e \<Rightarrow> Inl e
                | Inr (mermaid2, relationships2) \<Rightarrow>
                    tablesLoop U rest (mermaid2 @ ''}\<newline>'', relationships2))))"

text \<open>The last loop, \<open>for (const rel of relationships)\<close>, and the line it appends.\<close>

definition relationshipLine :: "(string \<Rightarrow> string) \<Rightarrow> relationship \<Rightarrow> thrown + string" where
  "relationshipLine U rel =
     (case call_toUpperCase U (rel_to rel) of
        Inl e \<Rightarrow> Inl e
      | Inr to \<Rightarrow>
          Inr (to @ '' ||--o{ '' @ toUpperCase U (rel_from rel) @ '' : '' @ rel_field rel @
               ''\<newline>''))"

fun relationshipsLoop ::
  "(string \<Rightarrow> string) \<Rightarrow> relationship list \<Rightarrow> string \<Rightarrow> thrown + string" where
  "relationshipsLoop U [] mermaid = Inr mermaid"
| "relationshipsLoop U (rel # rest) mermaid =
     (case relationshipLine U rel of
        Inl e \<Rightarrow> Inl e
      | Inr line \<Rightarrow> relationshipsLoop U rest (mermaid @ line))"

text \<open>
  Lines 55 to 98 of the source: from \<open>const tables = schema.tables\<close> to \<open>return mermaid\<close>.
  The result carries the final value of \<open>relationships\<close> next to the returned text, so
  that statements about the relationship list can be made; the source returns the text.
\<close>

definition compile ::
  "(string \<Rightarrow> string) \<Rightarrow> jsval \<Rightarrow> thrown + string \<times> relationship list" where
  "compile U schema =
     (case getProp schema ''tables'' of
        Inl e \<Rightarrow> Inl e
      | Inr tables \<Rightarrow>
          (case Object_entries tables of
             Inl e \<Rightarrow> Inl e
           | Inr entries \<Rightarrow>
               (case tablesLoop U entries (''erDiagram\<newline>'', []) of
                  Inl e \<Rightarrow> Inl e
                | Inr (mermaid, relationships) \<Rightarrow>
                    (case relationshipsLoop U relationships mermaid of
                       Inl e \<Rightarrow> Inl e
                     | Inr mermaid' \<Rightarrow> Inr (mermaid', relationships)))))"

section \<open>The schema loader and \<open>generateMermaidFromSchema\<close>\<close>

text \<open>
  What a call of \<open>generateMermaidFromSchema\<close> takes from its surroundings: the library
  function \<open>pathToFileURL(p).href\<close>, the reading of the clock \<open>Date.now()\<close> (milliseconds,
  a whole number) at the call, and the outcome of the dynamic \<open>import\<close> of a URL at the
  call (the module namespace object, or a rejection). The case mapping \<open>U\<close> belongs to the
  language, not to the surroundings of a call, and stays an argument of its own.
\<close>

record env =
  pathToFileURL_href :: "string \<Rightarrow> string"
  Date_now :: nat
  importModule :: "string \<Rightarrow> thrown + jsval"

definition schemaUrl :: "env \<Rightarrow> string \<Rightarrow> string" where
  "schemaUrl w schemaFilePath =
     pathToFileURL_href w schemaFilePath @ ''?update='' @ showNat (Date_now w)"

text \<open>
  The \<open>catch\<close> clause turns whatever was thrown into
  \<open>new Error(`Failed to load or parse schema: ${err.message || err}`)\<close>: a fixed prefix
  followed by the text of the cause. \<open>Error prefix cause\<close> is that error.
\<close>

datatype failure = Error string thrown

definition generateMermaidFromSchema ::
  "(string \<Rightarrow> string) \<Rightarrow> env \<Rightarrow> string \<Rightarrow> failure + string" where
  "generateMermaidFromSchema U w schemaFilePath =
     (case (case importModule w (schemaUrl w schemaFilePath) of
              Inl e \<Rightarrow> Inl e
            | Inr schemaModule \<Rightarrow>
                (case getProp schemaModule ''default'' of
                   Inl e \<Rightarrow> Inl e
                 | Inr schema \<Rightarrow> compile U schema)) of
        Inl err \<Rightarrow> Inl (Error ''Failed to load or parse schema: '' err)
      | Inr (mermaid, relationships) \<Rightarrow> Inr mermaid)"

section \<open>The broadcast: \<open>broadcastMermaid\<close>\<close>

text \<open>
  A member of \<open>wss.clients\<close>: the channel it stands for and its \<open>readyState\<close>
  (0 connecting, 1 open, 2 closing, 3 closed). \<open>client.send(mermaid)\<close> is recorded in a
  log of (channel, text) pairs, in the order of the calls.
\<close>

record client =
  channel :: nat
  readyState :: nat

fun sendLoop :: "string \<Rightarrow> client list \<Rightarrow> (nat \<times> string) list \<Rightarrow> (nat \<times> string) list" where
  "sendLoop mermaid [] sent = sent"
| "sendLoop mermaid (c # rest) sent =
     (if readyState c = 1 then sendLoop mermaid rest (sent @ [(channel c, mermaid)])
      else sendLoop mermaid rest sent)"

text \<open>
  \<open>broadcastMermaid\<close> awaits the diagram first: when \<open>generateMermaidFromSchema\<close> rejects,
  so does the broadcast, before anything is sent.
\<close>

definition broadcastMermaid ::
  "(string \<Rightarrow> string) \<Rightarrow> env \<Rightarrow> string \<Rightarrow> client list \<Rightarrow> (nat \<times> string) list
     \<Rightarrow> failure + (nat \<times> string) list" where
  "broadcastMermaid U w schemaFilePath clients sent =
     (case generateMermaidFromSchema U w schemaFilePath of
        Inl err \<Rightarrow> Inl err
      | Inr mermaid \<Rightarrow> Inr (sendLoop mermaid clients sent))"

section \<open>The data model of the schema and its JavaScript form\<close>

text \<open>
  The field validators of the data model, one constructor for each case label of the
  classifier's \<open>switch\<close>, and \<open>VOther\<close> for a validator of any other kind (\<open>None\<close>: no kind
  at all). \<open>toJs\<close> is the object the classifier reads: the properties \<open>kind\<close>,
  \<open>tableName\<close>, \<open>value\<close>, \<open>element\<close>, \<open>key\<close> and \<open>members\<close>, as the validator constructors
  used in \<open>test-schema.ts\<close> set them.
\<close>

datatype FieldValidator =
    VString
  | VId string
  | VFloat64
  | VInt64
  | VBoolean
  | VBytes
  | VNull
  | VAny
  | VObject
  | VLiteral jsval
  | VArray FieldValidator
  | VRecord FieldValidator FieldValidator
  | VUnion "FieldValidator list"
  | VOther "string option"

fun toJs :: "FieldValidator \<Rightarrow> jsval" where
  "toJs VString = Obj [(''kind'', Str ''string'')]"
| "toJs (VId tableName) = Obj [(''kind'', Str ''id''), (''tableName'', Str tableName)]"
| "toJs VFloat64 = Obj [(''kind'', Str ''float64'')]"
| "toJs VInt64 = Obj [(''kind'', Str ''int64'')]"
| "toJs VBoolean = Obj [(''kind'', Str ''boolean'')]"
| "toJs VBytes = Obj [(''kind'', Str ''bytes'')]"
| "toJs VNull = Obj [(''kind'', Str ''null'')]"
| "toJs VAny = Obj [(''kind'', Str ''any'')]"
| "toJs VObject = Obj [(''kind'', Str ''object'')]"
| "toJs (VLiteral v) = Obj [(''kind'', Str ''literal''), (''value'', v)]"
| "toJs (VArray e) = Obj [(''kind'', Str ''array''), (''element'', toJs e)]"
| "toJs (VRecord k v) = Obj [(''kind'', Str ''record''), (''key'', toJs k), (''value'', toJs v)]"
| "toJs (VUnion ms) = Obj [(''kind'', Str ''union''), (''members'', Arr (map toJs ms))]"
| "toJs (VOther None) = Obj []"
| "toJs (VOther (Some k)) = Obj [(''kind'', Str k)]"

definition caseLabels :: "string list" where
  "caseLabels =
     [''string'', ''id'', ''float64'', ''int64'', ''boolean'', ''bytes'', ''null'', ''any'',
      ''object'', ''literal'', ''array'', ''record'', ''union'']"

text \<open>
  The value of a literal validator is a string, a number, a big integer or a boolean.
\<close>

fun literalValue :: "jsval \<Rightarrow> bool" where
  "literalValue (Str s) = True"
| "literalValue (Number r) = True"
| "literalValue (BigInt i) = True"
| "literalValue (Bool b) = True"
| "literalValue v = False"

text \<open>
  A validator is well formed when each literal in it carries a literal value and each
  \<open>VOther\<close> in it really is of another kind: its kind is none of the case labels.
\<close>

fun wellFormed :: "FieldValidator \<Rightarrow> bool" where
  "wellFormed (VLiteral x) = literalValue x"
| "wellFormed (VArray e) = wellFormed e"
| "wellFormed (VRecord k v) = (wellFormed k \<and> wellFormed v)"
| "wellFormed (VUnion ms) = list_all wellFormed ms"
| "wellFormed (VOther (Some k)) = (k \<notin> set caseLabels)"
| "wellFormed v = True"

text \<open>
  A table is its fields and a schema its tables, both in the order in which
  \<open>Object.entries\<close> enumerates them (the order of declaration, for names that are not
  whole numbers). \<open>tableToJs\<close> and \<open>schemaToJs\<close> give the objects the compiler reads:
  \<open>schema.tables\<close>, whose entries are \<open>tablesToJs\<close>, and for each table
  \<open>tableDef.validator.fields\<close>.
\<close>

type_synonym TableDefinition = "(string \<times> FieldValidator) list"
type_synonym Schema = "(string \<times> TableDefinition) list"

definition fieldsToJs :: "TableDefinition \<Rightarrow> (string \<times> jsval) list" where
  "fieldsToJs fs = map (\<lambda>(fieldName, v). (fieldName, toJs v)) fs"

definition tableToJs :: "TableDefinition \<Rightarrow> jsval" where
  "tableToJs fs =
     Obj [(''validator'', Obj [(''kind'', Str ''object''), (''fields'', Obj (fieldsToJs fs))])]"

definition tablesToJs :: "Schema \<Rightarrow> (string \<times> jsval) list" where
  "tablesToJs S = map (\<lambda>(tableName, fs). (tableName, tableToJs fs)) S"

definition schemaToJs :: "Schema \<Rightarrow> jsval" where
  "schemaToJs S = Obj [(''tables'', Obj (tablesToJs S))]"

definition wellFormedSchema :: "Schema \<Rightarrow> bool" where
  "wellFormedSchema S = list_all (\<lambda>(tableName, fs). list_all (\<lambda>(fieldName, v). wellFormed v) fs) S"

text \<open>The schema of \<open>src/test-schema.ts\<close>; \<open>v.number()\<close> is the validator of kind \<open>float64\<close>.\<close>

definition testSchema :: Schema where
  "testSchema =
     [(''messages'', [(''body'', VString), (''user'', VId ''users''), (''createdAt'', VFloat64)]),
      (''users'', [(''name'', VString), (''tokenIdentifier'', VString)])]"

text \<open>
  The depth of the calls of \<open>getFieldType\<close> on a validator: one for the validator itself
  and, for an array, a record or a union, the depth of its deepest part.
\<close>

fun nesting :: "FieldValidator \<Rightarrow> nat" where
  "nesting (VArray e) = Suc (nesting e)"
| "nesting (VRecord k v) = Suc (max (nesting k) (nesting v))"
| "nesting (VUnion ms) = Suc (foldr max (map nesting ms) 0)"
| "nesting v = Suc 0"

text \<open>An array of an array of ... of strings, \<open>n\<close> levels of \<open>v.array\<close> around \<open>v.string()\<close>.\<close>

fun deep :: "nat \<Rightarrow> FieldValidator" where
  "deep 0 = VString"
| "deep (Suc n) = VArray (deep n)"

section \<open>Sample calls and auxiliary notions\<close>

text \<open>Reading a decimal text back, to show that \<open>showNat\<close> loses nothing.\<close>

definition digitVal :: "char \<Rightarrow> nat" where
  "digitVal c = (case map_of (zip ''0123456789'' [0..<10]) c of Some d \<Rightarrow> d | None \<Rightarrow> 0)"

definition readNat :: "string \<Rightarrow> nat" where
  "readNat s = foldl (\<lambda>a c. 10 * a + digitVal c) 0 s"

text \<open>
  Closed statements need a case mapping. This one leaves a text beyond ASCII as it is; the
  names in the sample schemas are ASCII, for which no case mapping is consulted.
\<close>

definition sampleUpper :: "string \<Rightarrow> string" where
  "sampleUpper s = s"

text \<open>The module URLs of a sequence of calls, each call with its own surroundings.\<close>

definition urlsUsed :: "env list \<Rightarrow> string \<Rightarrow> string list" where
  "urlsUsed calls schemaFilePath = map (\<lambda>w. schemaUrl w schemaFilePath) calls"

text \<open>
  Two calls within the same millisecond, in a process started in \<open>/app\<close> whose schema file
  exports the schema of \<open>test-schema.ts\<close>, and the diagram of that schema.
\<close>

definition firstCall :: env where
  "firstCall =
     \<lparr>pathToFileURL_href = (\<lambda>p. ''file:///app/'' @ p), Date_now = 1700000000000,
      importModule = (\<lambda>url. Inr (Obj [(''default'', schemaToJs testSchema)]))\<rparr>"

definition secondCall :: env where
  "secondCall =
     \<lparr>pathToFileURL_href = (\<lambda>p. ''file:///app/'' @ p), Date_now = 1700000000000,
      importModule = (\<lambda>url. Inr (Obj [(''default'', schemaToJs testSchema)]))\<rparr>"

definition testDiagram :: string where
  "testDiagram =
     ''erDiagram\<newline>'' @
     ''MESSAGES {\<newline>'' @
     ''    string body\<newline>'' @
     ''    id(users) user\<newline>'' @
     ''    number createdAt\<newline>'' @
     ''}\<newline>'' @
     ''USERS {\<newline>'' @
     ''    string name\<newline>'' @
     ''    string tokenIdentifier\<newline>'' @
     ''}\<newline>'' @
     ''USERS ||--o{ MESSAGES : user\<newline>''"

text \<open>
  A call whose schema file exports an object with \<open>tables: 5\<close>: a \<open>tables\<close> property that
  is there and is not a collection of tables.
\<close>

definition numberTablesCall :: env where
  "numberTablesCall =
     \<lparr>pathToFileURL_href = (\<lambda>p. ''file:///app/'' @ p), Date_now = 1700000000000,
      importModule = (\<lambda>url. Inr (Obj [(''default'', Obj [(''tables'', Number ''5'')])]))\<rparr>"

text \<open>
  The identifier references of a schema, in the order of its tables and fields: the table
  and the field that hold the reference, and the table name it refers to.
\<close>

fun fieldReferences :: "string \<Rightarrow> string \<times> FieldValidator \<Rightarrow> (string \<times> string \<times> string) list" where
  "fieldReferences tableName (fieldName, VId n) = [(tableName, fieldName, n)]"
| "fieldReferences tableName (fieldName, v) = []"

definition references :: "Schema \<Rightarrow> (string \<times> string \<times> string) list" where
  "references S = concat (map (\<lambda>(tableName, fs). concat (map (fieldReferences tableName) fs)) S)"

section \<open>The classifier on the data model\<close>

text \<open>
  The labelling rules as the specification words them, one equation for each rule. The
  classifier is compared with them below. \<open>literalText\<close> is the stringified value of a
  literal.
\<close>

definition literalText :: "jsval \<Rightarrow> string" where
  "literalText x = (case ToString x of Inr t \<Rightarrow> t | Inl e \<Rightarrow> [])"

fun labelOf :: "FieldValidator \<Rightarrow> string" where
  "labelOf VString = ''string''"
| "labelOf (VId tableName) = ''id('' @ tableName @ '')''"
| "labelOf VFloat64 = ''number''"
| "labelOf VInt64 = ''int''"
| "labelOf VBoolean = ''boolean''"
| "labelOf VBytes = ''bytes''"
| "labelOf VNull = ''null''"
| "labelOf VAny = ''any''"
| "labelOf VObject = ''object''"
| "labelOf (VLiteral x) = literalText x"
| "labelOf (VArray e) = labelOf e @ ''[]''"
| "labelOf (VRecord k v) = ''record('' @ labelOf k @ ''_'' @ labelOf v @ '')''"
| "labelOf (VUnion ms) = ''union('' @ joinWith ''_or_'' (map labelOf ms) @ '')''"
| "labelOf (VOther None) = ''unknown''"
| "labelOf (VOther (Some k)) = (if k = [] then ''unknown'' else k)"

text \<open>
  What the compiler should give on a schema of the data model, written out from the
  diagram format: the line of a field, the block of a table, the relationships of a field
  and of a table (an identifier reference with a non-empty table name gives one), the line
  of a relationship. The loops are compared with them below.
\<close>

definition fieldLine :: "string \<times> FieldValidator \<Rightarrow> string" where
  "fieldLine = (\<lambda>(fieldName, v). ''    '' @ labelOf v @ '' '' @ fieldName @ ''\<newline>'')"

fun fieldRels :: "string \<Rightarrow> string \<times> FieldValidator \<Rightarrow> relationship list" where
  "fieldRels tableName (fieldName, VId n) =
     (if n = [] then []
      else [\<lparr>rel_from = tableName, rel_to = Str n, rel_field = fieldName\<rparr>])"
| "fieldRels tableName (fieldName, v) = []"

definition tableBlock :: "(string \<Rightarrow> string) \<Rightarrow> string \<times> TableDefinition \<Rightarrow> string" where
  "tableBlock U = (\<lambda>(tableName, fs).
     toUpperCase U tableName @ '' {\<newline>'' @ concat (map fieldLine fs) @ ''}\<newline>'')"

definition tableRels :: "string \<times> TableDefinition \<Rightarrow> relationship list" where
  "tableRels = (\<lambda>(tableName, fs). concat (map (fieldRels tableName) fs))"

definition relationshipText :: "(string \<Rightarrow> string) \<Rightarrow> relationship \<Rightarrow> string" where
  "relationshipText U rel =
     toUpperCase U (literalText (rel_to rel)) @ '' ||--o{ '' @ toUpperCase U (rel_from rel) @ '' : '' @
     rel_field rel @ ''\<newline>''"

definition schemaRels :: "Schema \<Rightarrow> relationship list" where
  "schemaRels S = concat (map tableRels S)"

text \<open>A text that ends with a line break: what follows it starts a line.\<close>

definition endsLine :: "string \<Rightarrow> bool" where
  "endsLine s = (s \<noteq> [] \<and> last s = CHR 0x0A)"

text \<open>The relationship that a reference with a non-empty table name gives.\<close>

definition relationshipOf :: "string \<times> string \<times> string \<Rightarrow> relationship" where
  "relationshipOf = (\<lambda>(t, f, n). \<lparr>rel_from = t, rel_to = Str n, rel_field = f\<rparr>)"

section \<open>The classifier on the data model: proofs\<close>

lemmas getFieldType_Obj =
  getFieldType.simps(1) [of "Obj ps" for ps, unfolded truthy.simps not_True_eq_False if_False]

lemmas getFieldTypeOnStack_Obj =
  getFieldTypeOnStack.simps(2)
    [of room "Obj ps" for room ps, unfolded truthy.simps not_True_eq_False if_False]

lemma elementTexts_Str: "elementTexts (map (\<lambda>v. Str (f v)) ms) = Inr (map f ms)"
  by (induction ms) simp_all

lemma join_Str: "join sep (map (\<lambda>v. Str (f v)) ms) = Inr (joinWith sep (map f ms))"
  by (simp add: join_def elementTexts_Str)

lemma ToString_literalValue: "literalValue x \<Longrightarrow> ToString x = Inr (literalText x)"
  by (cases x) (simp_all add: literalText_def)

lemma getFieldTypes_map:
  "(\<And>m. m \<in> set ms \<Longrightarrow> getFieldType (toJs m) = Inr (Str (labelOf m))) \<Longrightarrow>
   getFieldTypes (map toJs ms) = Inr (map (\<lambda>m. Str (labelOf m)) ms)"
  by (induction ms) simp_all

text \<open>On a well-formed validator the classifier returns the string the rules give.\<close>

lemma getFieldType_toJs:
  "wellFormed v \<Longrightarrow> getFieldType (toJs v) = Inr (Str (labelOf v))"
proof (induction v)
  case (VUnion ms)
  have "getFieldTypes (map toJs ms) = Inr (map (\<lambda>m. Str (labelOf m)) ms)"
    using VUnion by (intro getFieldTypes_map) (simp add: list_all_iff)
  then show ?case by (simp add: getFieldType_Obj join_Str)
next
  case (VOther k)
  then show ?case
    by (cases k) (auto simp: getFieldType_Obj caseLabels_def)
qed (simp_all add: getFieldType_Obj ToString_literalValue)

lemma labelOf_empty: "labelOf v = [] \<Longrightarrow> \<exists>x. v = VLiteral x \<and> literalText x = []"
proof (cases v)
  case (VOther k)
  assume "labelOf v = []"
  with VOther show ?thesis by (cases k) (simp_all split: if_splits)
qed simp_all

lemma getFieldTypesOnStack_map:
  assumes "\<And>m. m \<in> set ms \<Longrightarrow>
     getFieldTypeOnStack room (toJs m) =
       (if nesting m \<le> room then Inr (Str (labelOf m)) else Inl RangeError)"
  shows "getFieldTypesOnStack room (map toJs ms) =
     (if foldr max (map nesting ms) 0 \<le> room then Inr (map (\<lambda>m. Str (labelOf m)) ms)
      else Inl RangeError)"
  using assms
proof (induction ms)
  case Nil
  show ?case by simp
next
  case (Cons m ms)
  have h: "getFieldTypeOnStack room (toJs m) =
       (if nesting m \<le> room then Inr (Str (labelOf m)) else Inl RangeError)"
    by (rule Cons.prems) simp
  have t: "getFieldTypesOnStack room (map toJs ms) =
     (if foldr max (map nesting ms) 0 \<le> room then Inr (map (\<lambda>m. Str (labelOf m)) ms)
      else Inl RangeError)"
    by (rule Cons.IH) (simp add: Cons.prems)
  show ?case by (simp add: h t)
qed

lemma nesting_pos: "0 < nesting v"
  by (cases v) simp_all

lemma getFieldTypeOnStack_0: "wellFormed v \<Longrightarrow> getFieldTypeOnStack 0 (toJs v) =
     (if nesting v \<le> 0 then Inr (Str (labelOf v)) else Inl RangeError)"
  using nesting_pos [of v] by simp

lemma getFieldTypeOnStack_toJs:
  "wellFormed v \<Longrightarrow>
   getFieldTypeOnStack room (toJs v) =
     (if nesting v \<le> room then Inr (Str (labelOf v)) else Inl RangeError)"
proof (induction v arbitrary: room)
  case (VUnion ms)
  show ?case
  proof (cases room)
    case 0
    then show ?thesis by simp
  next
    case (Suc r)
    have "getFieldTypesOnStack r (map toJs ms) =
       (if foldr max (map nesting ms) 0 \<le> r then Inr (map (\<lambda>m. Str (labelOf m)) ms)
        else Inl RangeError)"
      using VUnion by (intro getFieldTypesOnStack_map) (simp add: list_all_iff)
    then show ?thesis by (simp add: Suc getFieldTypeOnStack_Obj join_Str)
  qed
next
  case (VOther k)
  show ?case
  proof (cases room)
    case 0
    then show ?thesis by simp
  next
    case (Suc r)
    with VOther show ?thesis
      by (cases k) (auto simp: getFieldTypeOnStack_Obj caseLabels_def)
  qed
next
  case (VArray e)
  show ?case
  proof (cases room)
    case 0
    then show ?thesis by simp
  next
    case (Suc r)
    from VArray have "getFieldTypeOnStack r (toJs e) =
      (if nesting e \<le> r then Inr (Str (labelOf e)) else Inl RangeError)" by simp
    then show ?thesis by (simp add: Suc getFieldTypeOnStack_Obj)
  qed
next
  case (VRecord k v)
  show ?case
  proof (cases room)
    case 0
    then show ?thesis by simp
  next
    case (Suc r)
    from VRecord have "getFieldTypeOnStack r (toJs k) =
      (if nesting k \<le> r then Inr (Str (labelOf k)) else Inl RangeError)"
      and "getFieldTypeOnStack r (toJs v) =
      (if nesting v \<le> r then Inr (Str (labelOf v)) else Inl RangeError)" by simp_all
    then show ?thesis by (simp add: Suc getFieldTypeOnStack_Obj)
  qed
next
  case (VLiteral x)
  then show ?case
    by (cases room) (simp_all add: getFieldTypeOnStack_Obj ToString_literalValue)
next
  case VString
  show ?case by (cases room) (simp_all add: getFieldTypeOnStack_Obj)
next
  case (VId n)
  show ?case by (cases room) (simp_all add: getFieldTypeOnStack_Obj)
next
  case VFloat64
  show ?case by (cases room) (simp_all add: getFieldTypeOnStack_Obj)
next
  case VInt64
  show ?case by (cases room) (simp_all add: getFieldTypeOnStack_Obj)
next
  case VBoolean
  show ?case by (cases room) (simp_all add: getFieldTypeOnStack_Obj)
next
  case VBytes
  show ?case by (cases room) (simp_all add: getFieldTypeOnStack_Obj)
next
  case VNull
  show ?case by (cases room) (simp_all add: getFieldTypeOnStack_Obj)
next
  case VAny
  show ?case by (cases room) (simp_all add: getFieldTypeOnStack_Obj)
next
  case VObject
  show ?case by (cases room) (simp_all add: getFieldTypeOnStack_Obj)
qed

text \<open>
  The two classifiers agree on every value, whenever the counted one does not run out of
  stack.
\<close>

lemma getFieldTypesOnStack_agrees_aux:
  assumes IH: "\<And>v. getFieldTypeOnStack room v \<noteq> Inl RangeError \<Longrightarrow>
                 getFieldTypeOnStack room v = getFieldType v"
  shows "getFieldTypesOnStack room vs \<noteq> Inl RangeError \<Longrightarrow>
         getFieldTypesOnStack room vs = getFieldTypes vs"
proof (induction vs)
  case Nil
  show ?case by simp
next
  case (Cons v vs)
  from Cons.prems have v: "getFieldTypeOnStack room v \<noteq> Inl RangeError"
    by (auto split: sum.splits)
  then have ev: "getFieldTypeOnStack room v = getFieldType v" by (rule IH)
  show ?case
  proof (cases "getFieldType v")
    case (Inl e)
    with ev show ?thesis by simp
  next
    case (Inr r)
    with Cons.prems ev have "getFieldTypesOnStack room vs \<noteq> Inl RangeError"
      by (auto split: sum.splits)
    then have "getFieldTypesOnStack room vs = getFieldTypes vs" by (rule Cons.IH)
    with ev Inr show ?thesis by simp
  qed
qed

lemma getFieldTypeOnStack_agrees:
  "getFieldTypeOnStack room v \<noteq> Inl RangeError \<Longrightarrow>
     getFieldTypeOnStack room v = getFieldType v"
proof (induction room arbitrary: v)
  case 0
  then show ?case by simp
next
  case (Suc r)
  let ?k = "propOf v ''kind''"
  have E: "\<And>x. getFieldTypeOnStack r x = Inl RangeError \<or>
                getFieldTypeOnStack r x = getFieldType x"
    using Suc.IH by blast
  have Es: "\<And>xs. getFieldTypesOnStack r xs = Inl RangeError \<or>
                getFieldTypesOnStack r xs = getFieldTypes xs"
    using getFieldTypesOnStack_agrees_aux [of r] Suc.IH by blast
  consider (arr) "truthy v" "?k = Str ''array''"
    | (rec) "truthy v" "?k = Str ''record''"
    | (uni) "truthy v" "?k = Str ''union''"
    | (falsy) "\<not> truthy v"
    | (other) "truthy v" "?k \<noteq> Str ''array''" "?k \<noteq> Str ''record''" "?k \<noteq> Str ''union''"
    by blast
  then show ?case
  proof cases
    case arr
    with Suc.prems E [of "propOf v ''element''"] show ?thesis
      by (subst getFieldType.simps, subst getFieldTypeOnStack.simps(2))
         (auto simp: getFieldTypeOnStack.simps(2) [of r v] Let_def split: sum.splits)
  next
    case rec
    with Suc.prems E [of "propOf v ''key''"] E [of "propOf v ''value''"] show ?thesis
      by (subst getFieldType.simps, subst getFieldTypeOnStack.simps(2))
         (auto simp: getFieldTypeOnStack.simps(2) [of r v] Let_def split: sum.splits)
  next
    case uni
    show ?thesis
    proof (cases "propOf v ''members''")
      case (Arr ms)
      with uni Suc.prems Es [of ms] show ?thesis
        by (subst getFieldType.simps, subst getFieldTypeOnStack.simps(2))
           (auto simp: getFieldTypeOnStack.simps(2) [of r v] Let_def split: sum.splits)
    qed (use uni in \<open>subst getFieldType.simps, subst getFieldTypeOnStack.simps(2), simp\<close>)+
  next
    case falsy
    then show ?thesis
      by (subst getFieldType.simps, subst getFieldTypeOnStack.simps(2)) simp
  next
    case other
    then show ?thesis
      by (subst getFieldType.simps, subst getFieldTypeOnStack.simps(2)) (simp add: Let_def)
  qed
qed

section \<open>The compiler on the data model\<close>

lemma getProp_toJs: "getProp (toJs v) k = Inr (propOf (toJs v) k)"
  by (cases v rule: toJs.cases) (simp_all add: getProp_def)

lemma id_test_toJs:
  "wellFormed v \<Longrightarrow>
   (propOf (toJs v) ''kind'' = Str ''id'' \<and> truthy (propOf (toJs v) ''tableName'')) =
   (\<exists>n. v = VId n \<and> n \<noteq> [])"
  by (cases v rule: toJs.cases) (auto simp: caseLabels_def)

lemma fieldRels_not_id: "\<not> (\<exists>n. v = VId n \<and> n \<noteq> []) \<Longrightarrow> fieldRels t (f, v) = []"
  by (cases v) auto

lemma fieldsToJs_simps [simp]:
  "fieldsToJs [] = []"
  "fieldsToJs ((f, v) # fs) = (f, toJs v) # fieldsToJs fs"
  by (simp_all add: fieldsToJs_def)

lemma fieldsLoop_step:
  assumes wf: "wellFormed v"
  shows "fieldsLoop t ((f, toJs v) # rest) (m, rels) =
         fieldsLoop t rest (m @ fieldLine (f, v), rels @ fieldRels t (f, v))"
proof (cases "\<exists>n. v = VId n \<and> n \<noteq> []")
  case True
  then obtain n where n: "v = VId n" "n \<noteq> []" by blast
  then show ?thesis
    by (simp add: getFieldType_Obj getProp_def fieldLine_def)
next
  case False
  with id_test_toJs [OF wf]
  have "\<not> (propOf (toJs v) ''kind'' = Str ''id'' \<and> truthy (propOf (toJs v) ''tableName''))"
    by simp
  with False show ?thesis
    by (auto simp: getFieldType_toJs [OF wf] getProp_toJs fieldLine_def fieldRels_not_id Let_def)
qed

lemma fieldsLoop_toJs:
  "list_all (\<lambda>(fieldName, v). wellFormed v) fs \<Longrightarrow>
   fieldsLoop t (fieldsToJs fs) (m, rels) =
     Inr (m @ concat (map fieldLine fs), rels @ concat (map (fieldRels t) fs))"
proof (induction fs arbitrary: m rels)
  case Nil
  show ?case by simp
next
  case (Cons p fs)
  obtain f v where p: "p = (f, v)" by (cases p)
  with Cons.prems have wf: "wellFormed v"
    and wfs: "list_all (\<lambda>(fieldName, v). wellFormed v) fs" by simp_all
  show ?case
    unfolding p fieldsToJs_simps fieldsLoop_step [OF wf] Cons.IH [OF wfs] by simp
qed

lemma tablesLoop_step:
  assumes wf: "list_all (\<lambda>(fieldName, v). wellFormed v) fs"
  shows "tablesLoop U ((t, tableToJs fs) # rest) (m, rels) =
         tablesLoop U rest (m @ tableBlock U (t, fs), rels @ tableRels (t, fs))"
  by (simp add: tableToJs_def getProp_def fieldsLoop_toJs [OF wf] tableBlock_def tableRels_def)

lemma tablesLoop_toJs:
  "wellFormedSchema S \<Longrightarrow>
   tablesLoop U (tablesToJs S) (m, rels) =
     Inr (m @ concat (map (tableBlock U) S), rels @ concat (map tableRels S))"
proof (induction S arbitrary: m rels)
  case Nil
  show ?case by (simp add: tablesToJs_def)
next
  case (Cons p S)
  obtain t fs where p: "p = (t, fs)" by (cases p)
  with Cons.prems have wf: "list_all (\<lambda>(fieldName, v). wellFormed v) fs"
    and wfs: "wellFormedSchema S" by (simp_all add: wellFormedSchema_def)
  have "tablesToJs (p # S) = (t, tableToJs fs) # tablesToJs S"
    by (simp add: p tablesToJs_def)
  then show ?case
    by (simp add: p tablesLoop_step [OF wf] Cons.IH [OF wfs] del: tablesLoop.simps)
qed

lemma relationshipsLoop_Str:
  "list_all (\<lambda>r. \<exists>n. rel_to r = Str n) rels \<Longrightarrow>
   relationshipsLoop U rels m = Inr (m @ concat (map (relationshipText U) rels))"
  by (induction rels arbitrary: m) (auto simp: relationshipLine_def relationshipText_def literalText_def)

lemma fieldRels_Str: "r \<in> set (fieldRels t p) \<Longrightarrow> \<exists>n. rel_to r = Str n"
  by (cases "(t, p)" rule: fieldRels.cases) (auto split: if_splits)

lemma schemaRels_Str: "list_all (\<lambda>r. \<exists>n. rel_to r = Str n) (schemaRels S)"
  by (auto simp: list_all_iff schemaRels_def tableRels_def dest: fieldRels_Str)

lemma compile_toJs:
  assumes "wellFormedSchema S"
  shows "compile U (schemaToJs S) =
     Inr (''erDiagram\<newline>'' @ concat (map (tableBlock U) S) @
          concat (map (relationshipText U) (schemaRels S)), schemaRels S)"
  using tablesLoop_toJs [OF assms, of U "''erDiagram\<newline>''" "[]"]
    relationshipsLoop_Str [OF schemaRels_Str, of U S]
  by (simp add: compile_def schemaToJs_def getProp_def schemaRels_def)

lemma schemaRels_mem:
  assumes "(t, fs) \<in> set S" "(f, VId n) \<in> set fs" "n \<noteq> []"
  shows "\<lparr>rel_from = t, rel_to = Str n, rel_field = f\<rparr> \<in> set (schemaRels S)"
proof -
  have "\<lparr>rel_from = t, rel_to = Str n, rel_field = f\<rparr> \<in> set (fieldRels t (f, VId n))"
    using assms(3) by simp
  with assms(2) have "\<lparr>rel_from = t, rel_to = Str n, rel_field = f\<rparr> \<in> set (tableRels (t, fs))"
    unfolding tableRels_def by (auto simp del: fieldRels.simps)
  with assms(1) show ?thesis unfolding schemaRels_def by auto
qed

lemma endsLine_append: "endsLine b \<Longrightarrow> endsLine (a @ b)"
  by (simp add: endsLine_def)

lemma endsLine_concat:
  "endsLine a \<Longrightarrow> list_all endsLine xs \<Longrightarrow> endsLine (a @ concat xs)"
proof (induction xs arbitrary: a)
  case Nil
  then show ?case by simp
next
  case (Cons x xs)
  then have "endsLine ((a @ x) @ concat xs)"
    by (intro Cons.IH) (simp_all add: endsLine_append)
  then show ?case by simp
qed

lemma endsLine_tableBlock: "endsLine (tableBlock U p)"
  by (cases p) (simp add: tableBlock_def endsLine_def)

lemma endsLine_relationshipText: "endsLine (relationshipText U r)"
  by (simp add: relationshipText_def endsLine_def)

section \<open>Decimal texts, the send loop, and relationships of any schema\<close>

lemma digitVal_digitChar: "d < 10 \<Longrightarrow> digitVal (digitChar d) = d"
proof -
  assume "d < 10"
  then have "d = 0 \<or> d = 1 \<or> d = 2 \<or> d = 3 \<or> d = 4 \<or> d = 5 \<or> d = 6 \<or> d = 7 \<or> d = 8 \<or> d = 9"
    by arith
  then show ?thesis
    by (elim disjE) (simp_all add: digitVal_def digitChar_def upt_rec)
qed

lemma readNat_snoc: "readNat (s @ [c]) = 10 * readNat s + digitVal c"
  by (simp add: readNat_def)

lemma readNat_showNat: "readNat (showNat n) = n"
proof (induction n rule: showNat.induct)
  case (1 n)
  show ?case
  proof (cases "n < 10")
    case True
    then show ?thesis
      by (subst showNat.simps) (simp add: readNat_def digitVal_digitChar)
  next
    case False
    with 1 have IH: "readNat (showNat (n div 10)) = n div 10" by simp
    have "n mod 10 < 10" by simp
    then have "digitVal (digitChar (n mod 10)) = n mod 10" by (rule digitVal_digitChar)
    with False IH show ?thesis
      by (subst showNat.simps) (simp add: readNat_snoc)
  qed
qed

lemma showNat_inj: "showNat a = showNat b \<Longrightarrow> a = b"
  by (metis readNat_showNat)

lemma sendLoop_eq:
  "sendLoop mermaid clients sent =
     sent @ map (\<lambda>c. (channel c, mermaid)) (filter (\<lambda>c. readyState c = 1) clients)"
  by (induction clients arbitrary: sent) simp_all

lemma count_list_map_filter:
  "distinct (map channel clients) \<Longrightarrow> c \<in> set clients \<Longrightarrow>
   count_list (map (\<lambda>c. (channel c, mermaid)) (filter (\<lambda>c. readyState c = 1) clients))
     (channel c, mermaid) = (if readyState c = 1 then 1 else 0)"
proof (induction clients)
  case Nil
  then show ?case by simp
next
  case (Cons a clients)
  show ?case
  proof (cases "c = a")
    case True
    have "channel a \<notin> channel ` set clients" using Cons.prems(1) by simp
    then have "count_list (map (\<lambda>c. (channel c, mermaid)) (filter (\<lambda>c. readyState c = 1) clients))
       (channel a, mermaid) = 0"
      by (auto simp: count_list_0_iff)
    with True show ?thesis by simp
  next
    case False
    with Cons.prems have c: "c \<in> set clients" and d: "distinct (map channel clients)" by simp_all
    from Cons.prems c have "channel a \<noteq> channel c" by auto
    with Cons.IH [OF d c] show ?thesis by simp
  qed
qed

lemma fieldsLoop_truthy:
  "fieldsLoop t es (m, rels) = Inr (m', rels') \<Longrightarrow>
   list_all (\<lambda>r. truthy (rel_to r)) rels \<Longrightarrow> list_all (\<lambda>r. truthy (rel_to r)) rels'"
proof (induction es arbitrary: m rels)
  case Nil
  then show ?case by simp
next
  case (Cons p es)
  obtain f v where p: "p = (f, v)" by (cases p)
  from Cons.prems show ?case
    unfolding p
    by (auto simp: Let_def split: sum.splits if_splits dest!: Cons.IH)
qed

lemma tablesLoop_truthy:
  "tablesLoop U es (m, rels) = Inr (m', rels') \<Longrightarrow>
   list_all (\<lambda>r. truthy (rel_to r)) rels \<Longrightarrow> list_all (\<lambda>r. truthy (rel_to r)) rels'"
proof (induction es arbitrary: m rels)
  case Nil
  then show ?case by simp
next
  case (Cons p es)
  obtain t d where p: "p = (t, d)" by (cases p)
  from Cons.prems show ?case
    unfolding p
    by (auto simp: Let_def split: sum.splits if_splits prod.splits
             dest!: Cons.IH dest: fieldsLoop_truthy)
qed

lemma relationshipsLoop_Inr:
  "relationshipsLoop U rels m = Inr m' \<Longrightarrow> list_all (\<lambda>r. \<exists>n. rel_to r = Str n) rels"
proof (induction rels arbitrary: m)
  case Nil
  show ?case by simp
next
  case (Cons r rels)
  from Cons.prems obtain line where l: "relationshipLine U r = Inr line"
    and rest: "relationshipsLoop U rels (m @ line) = Inr m'"
    by (auto split: sum.splits)
  from l have "\<exists>n. rel_to r = Str n"
    by (cases "rel_to r") (simp_all add: relationshipLine_def)
  with Cons.IH [OF rest] show ?case by simp
qed

lemma compile_rel_to:
  assumes "compile U schema = Inr (text, rels)"
  shows "list_all (\<lambda>r. \<exists>n. rel_to r = Str n \<and> n \<noteq> []) rels"
proof -
  from assms obtain es m where tl: "tablesLoop U es (''erDiagram\<newline>'', []) = Inr (m, rels)"
    and rl: "relationshipsLoop U rels m = Inr text"
    by (auto simp: compile_def split: sum.splits prod.splits)
  from tablesLoop_truthy [OF tl] have "list_all (\<lambda>r. truthy (rel_to r)) rels" by simp
  with relationshipsLoop_Inr [OF rl] show ?thesis
    unfolding list_all_iff by (metis truthy.simps(6))
qed

lemma testSchema_compiles:
  "compile U (schemaToJs testSchema) =
     Inr (testDiagram, [\<lparr>rel_from = ''messages'', rel_to = Str ''users'', rel_field = ''user''\<rparr>])"
  by code_simp

lemma generate_firstCall:
  "generateMermaidFromSchema U firstCall ''convex/schema.ts'' = Inr testDiagram"
  by (simp add: generateMermaidFromSchema_def firstCall_def getProp_def testSchema_compiles)

lemma fieldRels_field: "r \<in> set (fieldRels t p) \<Longrightarrow> rel_field r = fst p \<and> rel_from r = t"
  by (cases "(t, p)" rule: fieldRels.cases) (auto split: if_splits)

lemma tableRels_field:
  "r \<in> set (tableRels (t, fs)) \<Longrightarrow> rel_field r \<in> fst ` set fs \<and> rel_from r = t"
  by (auto simp: tableRels_def dest: fieldRels_field)

lemma schemaRels_from: "r \<in> set (schemaRels S) \<Longrightarrow> rel_from r \<in> fst ` set S"
  by (force simp: schemaRels_def dest: tableRels_field)

lemma tableRels_append: "tableRels (t, xs @ ys) = tableRels (t, xs) @ tableRels (t, ys)"
  by (simp add: tableRels_def)

lemma schemaRels_append: "schemaRels (xs @ ys) = schemaRels xs @ schemaRels ys"
  by (simp add: schemaRels_def)

lemma tableRels_once:
  assumes "distinct (map fst fs)" and "(f, VId n) \<in> set fs" and "n \<noteq> []"
  shows "\<exists>A B. tableRels (t, fs) = A @ \<lparr>rel_from = t, rel_to = Str n, rel_field = f\<rparr> # B \<and>
               \<lparr>rel_from = t, rel_to = Str n, rel_field = f\<rparr> \<notin> set A \<and>
               \<lparr>rel_from = t, rel_to = Str n, rel_field = f\<rparr> \<notin> set B"
proof -
  let ?r = "\<lparr>rel_from = t, rel_to = Str n, rel_field = f\<rparr>"
  from assms(2) obtain f1 f2 where fs: "fs = f1 @ (f, VId n) # f2"
    by (auto simp: in_set_conv_decomp)
  with assms(1) have nf: "f \<notin> fst ` set f1" "f \<notin> fst ` set f2" by auto
  have "tableRels (t, fs) = tableRels (t, f1) @ ?r # tableRels (t, f2)"
    using assms(3) by (simp add: fs tableRels_def)
  moreover have "?r \<notin> set (tableRels (t, f1))" using nf(1) tableRels_field [of ?r t f1] by auto
  moreover have "?r \<notin> set (tableRels (t, f2))" using nf(2) tableRels_field [of ?r t f2] by auto
  ultimately show ?thesis by blast
qed

lemma schemaRels_once:
  assumes "distinct (map fst S)" and "(t, fs) \<in> set S"
    and "distinct (map fst fs)" and "(f, VId n) \<in> set fs" and "n \<noteq> []"
  shows "\<exists>R1 R2. schemaRels S = R1 @ \<lparr>rel_from = t, rel_to = Str n, rel_field = f\<rparr> # R2 \<and>
               \<lparr>rel_from = t, rel_to = Str n, rel_field = f\<rparr> \<notin> set R1 \<and>
               \<lparr>rel_from = t, rel_to = Str n, rel_field = f\<rparr> \<notin> set R2"
proof -
  let ?r = "\<lparr>rel_from = t, rel_to = Str n, rel_field = f\<rparr>"
  from assms(2) obtain S1 S2 where S: "S = S1 @ (t, fs) # S2"
    by (auto simp: in_set_conv_decomp)
  with assms(1) have nt: "t \<notin> fst ` set S1" "t \<notin> fst ` set S2" by auto
  from tableRels_once [OF assms(3-5), of t] obtain A B
    where AB: "tableRels (t, fs) = A @ ?r # B" "?r \<notin> set A" "?r \<notin> set B" by blast
  have "schemaRels S = (schemaRels S1 @ A) @ ?r # (B @ schemaRels S2)"
    by (simp add: S schemaRels_def AB(1))
  moreover have "?r \<notin> set (schemaRels S1)" using nt(1) schemaRels_from [of ?r S1] by auto
  moreover have "?r \<notin> set (schemaRels S2)" using nt(2) schemaRels_from [of ?r S2] by auto
  ultimately show ?thesis using AB(2,3)
    by (intro exI [of _ "schemaRels S1 @ A"] exI [of _ "B @ schemaRels S2"]) simp
qed

lemma fieldRels_references:
  "fieldRels t p = map relationshipOf (filter (\<lambda>(t, f, n). n \<noteq> []) (fieldReferences t p))"
  by (cases "(t, p)" rule: fieldReferences.cases) (simp_all add: relationshipOf_def)

lemma tableRels_references:
  "tableRels (t, fs) =
     map relationshipOf (filter (\<lambda>(t, f, n). n \<noteq> []) (concat (map (fieldReferences t) fs)))"
  by (induction fs) (simp_all add: tableRels_def fieldRels_references)

lemma schemaRels_references:
  "schemaRels S = map relationshipOf (filter (\<lambda>(t, f, n). n \<noteq> []) (references S))"
proof (induction S)
  case Nil
  show ?case by (simp add: schemaRels_def references_def)
next
  case (Cons p S)
  obtain t fs where p: "p = (t, fs)" by (cases p)
  from Cons show ?case
    by (simp add: p schemaRels_def references_def tableRels_references)
qed

lemma ToString_falsy: "\<not> truthy x \<Longrightarrow> \<exists>s. ToString x = Inr s"
  by (cases x) simp_all

lemma wellFormed_deep: "wellFormed (deep n)"
  by (induction n) simp_all

lemma nesting_deep: "nesting (deep n) = Suc n"
  by (induction n) simp_all

section \<open>Claims about the classifier\<close>

text \<open>
  C3 (label totality), as the code has it. Take a well-formed field validator: its
  literals carry strings, numbers, big integers or booleans. When the call stack has room
  for its nesting, \<open>getFieldType\<close> returns a string and throws nothing, and that string
  is the one the classifier gives with room to spare; it is empty exactly when the
  validator is a literal whose value converts to the empty string, and non-empty in every
  other case. When the nesting exceeds the room, the call throws a \<open>RangeError\<close>.
\<close>

theorem getFieldType_total:
  assumes "wellFormed v"
  shows "(nesting v \<le> room \<longrightarrow>
            (\<exists>s. getFieldTypeOnStack room (toJs v) = Inr (Str s) \<and>
                 getFieldType (toJs v) = Inr (Str s) \<and>
                 (s = [] \<longleftrightarrow> (\<exists>x. v = VLiteral x \<and> ToString x = Inr [])))) \<and>
         (room < nesting v \<longrightarrow> getFieldTypeOnStack room (toJs v) = Inl RangeError)"
proof -
  have e: "labelOf v = [] \<longleftrightarrow> (\<exists>x. v = VLiteral x \<and> ToString x = Inr [])"
  proof
    assume "labelOf v = []"
    then obtain x where x: "v = VLiteral x" "literalText x = []"
      using labelOf_empty by blast
    with assms have "ToString x = Inr []" by (simp add: ToString_literalValue)
    with x show "\<exists>x. v = VLiteral x \<and> ToString x = Inr []" by blast
  next
    assume "\<exists>x. v = VLiteral x \<and> ToString x = Inr []"
    then show "labelOf v = []" by (auto simp: literalText_def)
  qed
  show ?thesis
    using getFieldTypeOnStack_toJs [OF assms, of room] getFieldType_toJs [OF assms] e
    by auto
qed

theorem getFieldType_total_witness:
  "wellFormed (VRecord VString (VId ''users'')) \<and>
   nesting (VRecord VString (VId ''users'')) \<le> 2 \<and>
   (\<exists>s. getFieldTypeOnStack 2 (toJs (VRecord VString (VId ''users''))) = Inr (Str s) \<and>
        getFieldType (toJs (VRecord VString (VId ''users''))) = Inr (Str s) \<and> s \<noteq> []) \<and>
   1 < nesting (VRecord VString (VId ''users'')) \<and>
   getFieldTypeOnStack 1 (toJs (VRecord VString (VId ''users''))) = Inl RangeError"
proof -
  have wf: "wellFormed (VRecord VString (VId ''users''))" by simp
  have n: "nesting (VRecord VString (VId ''users'')) = 2" by simp
  from getFieldType_total [OF wf, of 2] getFieldType_total [OF wf, of 1] wf n
  show ?thesis by auto
qed

text \<open>
  The claim as stated fails in both of its parts. The label of the literal validator of
  the empty string is empty: \<open>`${validator.value}`\<close> is the empty string. A literal
  validator whose value is an object with a \<open>toString\<close> property of its own makes the
  classifier throw: the template literal cannot convert that object. And an array nested
  12000 deep makes it throw on a stack that has room for 10000 nested calls.
\<close>

theorem getFieldType_empty_literal:
  "wellFormed (VLiteral (Str [])) \<and>
   getFieldType (toJs (VLiteral (Str []))) = Inr (Str []) \<and>
   getFieldType (toJs (VLiteral (Obj [(''toString'', Number ''1'')]))) = Inl TypeError \<and>
   wellFormed (deep 12000) \<and>
   getFieldTypeOnStack 10000 (toJs (deep 12000)) = Inl RangeError"
proof -
  have "getFieldType (toJs (VLiteral (Str []))) = Inr (Str [])" by code_simp
  moreover have "getFieldType (toJs (VLiteral (Obj [(''toString'', Number ''1'')]))) =
      Inl TypeError" by code_simp
  moreover have "getFieldTypeOnStack 10000 (toJs (deep 12000)) = Inl RangeError"
    using getFieldTypeOnStack_toJs [OF wellFormed_deep [of 12000], of 10000]
    by (simp add: nesting_deep)
  ultimately show ?thesis by (simp add: wellFormed_deep)
qed

text \<open>
  C4 (array and union composition). An array of a union of string and integer is labelled
  \<open>union(string_or_int)[]\<close>. In general the label of an array is the label of its element
  followed by \<open>[]\<close>, and the label of a union is \<open>union(\<close>, the labels of its members in
  their order joined by \<open>_or_\<close>, and \<open>)\<close>.
\<close>

theorem getFieldType_array_union:
  "getFieldType (toJs (VArray (VUnion [VString, VInt64]))) = Inr (Str ''union(string_or_int)[]'') \<and>
   (\<forall>e. wellFormed e \<longrightarrow>
      (\<exists>s. getFieldType (toJs e) = Inr (Str s) \<and>
           getFieldType (toJs (VArray e)) = Inr (Str (s @ ''[]'')))) \<and>
   (\<forall>ms. list_all wellFormed ms \<longrightarrow>
      (\<exists>ss. map (\<lambda>m. getFieldType (toJs m)) ms = map (\<lambda>s. Inr (Str s)) ss \<and>
            getFieldType (toJs (VUnion ms)) =
              Inr (Str (''union('' @ joinWith ''_or_'' ss @ '')''))))"
proof (intro conjI allI impI)
  show "getFieldType (toJs (VArray (VUnion [VString, VInt64]))) = Inr (Str ''union(string_or_int)[]'')"
    by code_simp
next
  fix e assume wf: "wellFormed e"
  then have "wellFormed (VArray e)" by simp
  from getFieldType_toJs [OF wf] getFieldType_toJs [OF this]
  show "\<exists>s. getFieldType (toJs e) = Inr (Str s) \<and>
           getFieldType (toJs (VArray e)) = Inr (Str (s @ ''[]''))"
    by simp
next
  fix ms assume wf: "list_all wellFormed ms"
  then have "wellFormed (VUnion ms)" by simp
  then have u: "getFieldType (toJs (VUnion ms)) = Inr (Str (labelOf (VUnion ms)))"
    by (rule getFieldType_toJs)
  have "map (\<lambda>m. getFieldType (toJs m)) ms = map (\<lambda>s. Inr (Str s)) (map labelOf ms)"
    using wf by (simp add: list_all_iff getFieldType_toJs)
  with u show "\<exists>ss. map (\<lambda>m. getFieldType (toJs m)) ms = map (\<lambda>s. Inr (Str s)) ss \<and>
            getFieldType (toJs (VUnion ms)) =
              Inr (Str (''union('' @ joinWith ''_or_'' ss @ '')''))"
    by (intro exI [of _ "map labelOf ms"]) simp
qed

theorem getFieldType_array_union_witness:
  "wellFormed (VId ''users'') \<and>
   getFieldType (toJs (VArray (VId ''users''))) = Inr (Str ''id(users)[]'') \<and>
   list_all wellFormed [VBoolean, VArray VNull, VBytes] \<and>
   getFieldType (toJs (VUnion [VBoolean, VArray VNull, VBytes])) =
     Inr (Str ''union(boolean_or_null[]_or_bytes)'')"
proof -
  have wf: "wellFormed (VId ''users'')" by simp
  have wfs: "list_all wellFormed [VBoolean, VArray VNull, VBytes]" by simp
  from getFieldType_array_union
  have a: "\<exists>s. getFieldType (toJs (VId ''users'')) = Inr (Str s) \<and>
           getFieldType (toJs (VArray (VId ''users''))) = Inr (Str (s @ ''[]''))"
    using wf by blast
  have l: "getFieldType (toJs (VId ''users'')) = Inr (Str ''id(users)'')" by code_simp
  from a l have "getFieldType (toJs (VArray (VId ''users''))) = Inr (Str ''id(users)[]'')"
    by auto
  moreover have "getFieldType (toJs (VUnion [VBoolean, VArray VNull, VBytes])) =
     Inr (Str ''union(boolean_or_null[]_or_bytes)'')" by code_simp
  ultimately show ?thesis using wf wfs by simp
qed

section \<open>Claims about the compiler\<close>

text \<open>
  C1 (relationship extraction). Take a well-formed schema, its table and field names each
  occurring once, with a table \<open>messages\<close> that has a field \<open>user\<close> referring to \<open>users\<close>.
  The entity loop gives the entity blocks and a relationship list in which the
  relationship from \<open>messages\<close> to \<open>users\<close> by \<open>user\<close> occurs exactly once; the text is the
  entity blocks followed by the lines of the relationships in their order, the one of this
  relationship being \<open>USERS ||--o{ MESSAGES : user\<close>. When the schema has no other
  identifier reference, this is the only relationship and the only relationship line.
\<close>

theorem messages_user_relationship:
  assumes "wellFormedSchema S" and "distinct (map fst S)"
    and "(''messages'', fs) \<in> set S" and "distinct (map fst fs)"
    and "(''user'', VId ''users'') \<in> set fs"
  shows "\<exists>entities R1 R2.
           tablesLoop U (tablesToJs S) (''erDiagram\<newline>'', []) =
             Inr (entities,
                  R1 @ \<lparr>rel_from = ''messages'', rel_to = Str ''users'', rel_field = ''user''\<rparr> # R2) \<and>
           compile U (schemaToJs S) =
             Inr (entities @ concat (map (relationshipText U) R1) @
                    ''USERS ||--o{ MESSAGES : user\<newline>'' @
                    concat (map (relationshipText U) R2),
                  R1 @ \<lparr>rel_from = ''messages'', rel_to = Str ''users'', rel_field = ''user''\<rparr> # R2) \<and>
           \<lparr>rel_from = ''messages'', rel_to = Str ''users'', rel_field = ''user''\<rparr> \<notin> set R1 \<and>
           \<lparr>rel_from = ''messages'', rel_to = Str ''users'', rel_field = ''user''\<rparr> \<notin> set R2 \<and>
           (references S = [(''messages'', ''user'', ''users'')] \<longrightarrow> R1 = [] \<and> R2 = [])"
proof -
  let ?r = "\<lparr>rel_from = ''messages'', rel_to = Str ''users'', rel_field = ''user''\<rparr>"
  have ne: "''users'' \<noteq> []" by simp
  from schemaRels_once [OF assms(2-5) ne] obtain R1 R2
    where R: "schemaRels S = R1 @ ?r # R2" "?r \<notin> set R1" "?r \<notin> set R2" by blast
  let ?entities = "''erDiagram\<newline>'' @ concat (map (tableBlock U) S)"
  have line: "relationshipText U ?r = ''USERS ||--o{ MESSAGES : user\<newline>''"
    by (simp add: relationshipText_def literalText_def toUpperCase_def isAscii_def upperChar_def)
  have t: "tablesLoop U (tablesToJs S) (''erDiagram\<newline>'', []) = Inr (?entities, R1 @ ?r # R2)"
    using tablesLoop_toJs [OF assms(1), of U "''erDiagram\<newline>''" "[]"]
    by (simp add: R(1) [unfolded schemaRels_def])
  have c: "compile U (schemaToJs S) =
             Inr (?entities @ concat (map (relationshipText U) R1) @
                    ''USERS ||--o{ MESSAGES : user\<newline>'' @
                    concat (map (relationshipText U) R2), R1 @ ?r # R2)"
    by (simp add: compile_toJs [OF assms(1)] R(1) line [simplified])
  have o: "references S = [(''messages'', ''user'', ''users'')] \<longrightarrow> R1 = [] \<and> R2 = []"
  proof
    assume "references S = [(''messages'', ''user'', ''users'')]"
    then have "schemaRels S = [?r]"
      by (simp add: schemaRels_references relationshipOf_def)
    with R(1) show "R1 = [] \<and> R2 = []" by (cases R1) simp_all
  qed
  from t c R(2,3) o show ?thesis by blast
qed

theorem messages_user_relationship_witness:
  "wellFormedSchema testSchema \<and> distinct (map fst testSchema) \<and>
   (''messages'', [(''body'', VString), (''user'', VId ''users''), (''createdAt'', VFloat64)])
     \<in> set testSchema \<and>
   distinct (map fst [(''body'', VString), (''user'', VId ''users''), (''createdAt'', VFloat64)]) \<and>
   (''user'', VId ''users'')
     \<in> set [(''body'', VString), (''user'', VId ''users''), (''createdAt'', VFloat64)] \<and>
   references testSchema = [(''messages'', ''user'', ''users'')] \<and>
   compile (sampleUpper) (schemaToJs testSchema) =
     Inr (testDiagram,
          [\<lparr>rel_from = ''messages'', rel_to = Str ''users'', rel_field = ''user''\<rparr>])"
proof -
  let ?fs = "[(''body'', VString), (''user'', VId ''users''), (''createdAt'', VFloat64)]"
  let ?r = "\<lparr>rel_from = ''messages'', rel_to = Str ''users'', rel_field = ''user''\<rparr>"
  let ?U = "sampleUpper"
  have wf: "wellFormedSchema testSchema" by (simp add: wellFormedSchema_def testSchema_def)
  have d: "distinct (map fst testSchema)" by (simp add: testSchema_def)
  have m: "(''messages'', ?fs) \<in> set testSchema" by (simp add: testSchema_def)
  have df: "distinct (map fst ?fs)" by simp
  have u: "(''user'', VId ''users'') \<in> set ?fs" by simp
  have rf: "references testSchema = [(''messages'', ''user'', ''users'')]"
    by (simp add: references_def testSchema_def)
  from messages_user_relationship [OF wf d m df u, of ?U] rf
  obtain entities where t: "tablesLoop ?U (tablesToJs testSchema) (''erDiagram\<newline>'', []) =
      Inr (entities, [?r])"
    and c: "compile ?U (schemaToJs testSchema) =
      Inr (entities @ ''USERS ||--o{ MESSAGES : user\<newline>'', [?r])"
    by auto
  have "tablesLoop ?U (tablesToJs testSchema) (''erDiagram\<newline>'', []) =
      Inr (''erDiagram\<newline>'' @
           ''MESSAGES {\<newline>'' @
           ''    string body\<newline>'' @
           ''    id(users) user\<newline>'' @
           ''    number createdAt\<newline>'' @
           ''}\<newline>'' @
           ''USERS {\<newline>'' @
           ''    string name\<newline>'' @
           ''    string tokenIdentifier\<newline>'' @
           ''}\<newline>'', [?r])"
    by code_simp
  with t have "entities @ ''USERS ||--o{ MESSAGES : user\<newline>'' = testDiagram"
    by (simp add: testDiagram_def)
  with c have "compile ?U (schemaToJs testSchema) = Inr (testDiagram, [?r])" by simp
  with wf d m df u rf show ?thesis by simp
qed

text \<open>
  C9 (a field with no validator), at the input where the code departs from it. The
  classifier labels \<open>undefined\<close> and \<open>null\<close> as \<open>unknown\<close>; but a table with a field whose
  validator is \<open>undefined\<close> or \<open>null\<close> does not compile: the read \<open>validator.kind\<close> of the
  relationship test throws.
\<close>

theorem absent_validator_throws:
  "getFieldType Undefined = Inr (Str ''unknown'') \<and>
   getFieldType Null = Inr (Str ''unknown'') \<and>
   compile (sampleUpper) (Obj [(''tables'',
     Obj [(''t'', Obj [(''validator'', Obj [(''fields'', Obj [(''f'', Undefined)])])])])]) =
     Inl TypeError \<and>
   compile (sampleUpper) (Obj [(''tables'',
     Obj [(''t'', Obj [(''validator'', Obj [(''fields'', Obj [(''f'', Null)])])])])]) =
     Inl TypeError"
  by code_simp

text \<open>
  C7 (references to tables that do not exist), as the code has it. In a well-formed schema,
  a field that is an identifier reference with a non-empty table name gives its
  relationship and its line in the text, at the start of a line, whether or not a table of
  that name is in the schema, and whatever the case mapping of the run time is. (With an
  empty table name nothing is emitted: see below.)
\<close>

theorem dangling_reference_emitted:
  assumes "wellFormedSchema S" and "(t, fs) \<in> set S" and "(f, VId n) \<in> set fs" and "n \<noteq> []"
  shows "\<exists>text rels pre post.
           compile U (schemaToJs S) = Inr (text, rels) \<and>
           \<lparr>rel_from = t, rel_to = Str n, rel_field = f\<rparr> \<in> set rels \<and>
           text = pre @ toUpperCase U n @ '' ||--o{ '' @ toUpperCase U t @ '' : '' @ f @ ''\<newline>'' @ post \<and>
           endsLine pre"
proof -
  let ?r = "\<lparr>rel_from = t, rel_to = Str n, rel_field = f\<rparr>"
  have mem: "?r \<in> set (schemaRels S)" using assms(2-4) by (rule schemaRels_mem)
  then obtain r1 r2 where split: "schemaRels S = r1 @ ?r # r2"
    by (auto simp: in_set_conv_decomp)
  let ?pre = "(''erDiagram\<newline>'' @ concat (map (tableBlock U) S)) @ concat (map (relationshipText U) r1)"
  let ?post = "concat (map (relationshipText U) r2)"
  have "endsLine ?pre"
    by (intro endsLine_concat)
       (simp_all add: endsLine_def list_all_iff endsLine_tableBlock [unfolded endsLine_def]
          endsLine_relationshipText [unfolded endsLine_def])
  moreover have "compile U (schemaToJs S) =
      Inr (?pre @ toUpperCase U n @ '' ||--o{ '' @ toUpperCase U t @ '' : '' @ f @ ''\<newline>'' @ ?post,
           schemaRels S)"
    by (simp add: compile_toJs [OF assms(1)] split relationshipText_def literalText_def)
  ultimately show ?thesis using mem by blast
qed

theorem dangling_reference_emitted_witness:
  "wellFormedSchema [(''messages'', [(''user'', VId ''people'')])] \<and>
   (\<exists>text rels pre post.
      compile (sampleUpper) (schemaToJs [(''messages'', [(''user'', VId ''people'')])]) = Inr (text, rels) \<and>
      \<lparr>rel_from = ''messages'', rel_to = Str ''people'', rel_field = ''user''\<rparr> \<in> set rels \<and>
      text = pre @ toUpperCase (sampleUpper) ''people'' @ '' ||--o{ '' @
               toUpperCase (sampleUpper) ''messages'' @ '' : '' @
               ''user'' @ ''\<newline>'' @ post \<and>
      endsLine pre)"
proof -
  have wf: "wellFormedSchema [(''messages'', [(''user'', VId ''people'')])]"
    by (simp add: wellFormedSchema_def)
  have t: "(''messages'', [(''user'', VId ''people'')]) \<in> set [(''messages'', [(''user'', VId ''people'')])]"
    by simp
  have f: "(''user'', VId ''people'') \<in> set [(''user'', VId ''people'')]" by simp
  have n: "''people'' \<noteq> []" by simp
  from dangling_reference_emitted [OF wf t f n, of "sampleUpper"] wf show ?thesis by blast
qed

text \<open>
  The claim as stated fails on a reference whose table name is the empty string, which
  names no table of the schema: the field is labelled \<open>id()\<close> and no relationship and no
  relationship line is produced.
\<close>

theorem empty_reference_not_emitted:
  "wellFormedSchema [(''messages'', [(''user'', VId [])])] \<and>
   compile (sampleUpper) (schemaToJs [(''messages'', [(''user'', VId [])])]) =
     Inr (''erDiagram\<newline>MESSAGES {\<newline>    id() user\<newline>}\<newline>'', [])"
  by code_simp

section \<open>Claims about the loader\<close>

text \<open>
  C2 (determinism). The diagram text is a function of the loaded schema object alone: two
  runs that load the same schema value give the same result, whatever the clock, the path
  and the loader were at each run.
\<close>

theorem generateMermaidFromSchema_deterministic:
  assumes "importModule w1 (schemaUrl w1 p1) = Inr m1"
    and "importModule w2 (schemaUrl w2 p2) = Inr m2"
    and "getProp m1 ''default'' = Inr S"
    and "getProp m2 ''default'' = Inr S"
  shows "generateMermaidFromSchema U w1 p1 = generateMermaidFromSchema U w2 p2"
  using assms by (simp add: generateMermaidFromSchema_def)

theorem generateMermaidFromSchema_deterministic_witness:
  "importModule firstCall (schemaUrl firstCall ''convex/schema.ts'') =
     Inr (Obj [(''default'', schemaToJs testSchema)]) \<and>
   importModule (secondCall\<lparr>Date_now := 1700000060000\<rparr>)
       (schemaUrl (secondCall\<lparr>Date_now := 1700000060000\<rparr>) ''schema.ts'') =
     Inr (Obj [(''default'', schemaToJs testSchema)]) \<and>
   getProp (Obj [(''default'', schemaToJs testSchema)]) ''default'' = Inr (schemaToJs testSchema) \<and>
   generateMermaidFromSchema sampleUpper firstCall ''convex/schema.ts'' =
     generateMermaidFromSchema sampleUpper (secondCall\<lparr>Date_now := 1700000060000\<rparr>) ''schema.ts''"
proof -
  have i1: "importModule firstCall (schemaUrl firstCall ''convex/schema.ts'') =
     Inr (Obj [(''default'', schemaToJs testSchema)])"
    by (simp add: firstCall_def)
  have i2: "importModule (secondCall\<lparr>Date_now := 1700000060000\<rparr>)
       (schemaUrl (secondCall\<lparr>Date_now := 1700000060000\<rparr>) ''schema.ts'') =
     Inr (Obj [(''default'', schemaToJs testSchema)])"
    by (simp add: secondCall_def)
  have d: "getProp (Obj [(''default'', schemaToJs testSchema)]) ''default'' =
     Inr (schemaToJs testSchema)"
    by (simp add: getProp_def)
  from generateMermaidFromSchema_deterministic [OF i1 i2 d d, of sampleUpper] i1 i2 d show ?thesis by simp
qed

text \<open>
  C5 (malformed schema), as the code has it. When the loaded module has no schema (its default export is
  \<open>undefined\<close> or \<open>null\<close>) or the schema has no table collection (\<open>schema.tables\<close> is
  missing, \<open>undefined\<close> or \<open>null\<close>), \<open>generateMermaidFromSchema\<close> fails with the error
  whose message starts \<open>Failed to load or parse schema: \<close>; it returns no text.
\<close>

theorem missing_tables_fails:
  assumes "importModule w (schemaUrl w p) = Inr m"
    and "getProp m ''default'' = Inr schema"
    and "schema = Undefined \<or> schema = Null \<or>
         propOf schema ''tables'' = Undefined \<or> propOf schema ''tables'' = Null"
  shows "generateMermaidFromSchema U w p = Inl (Error ''Failed to load or parse schema: '' TypeError)"
proof -
  from assms(3) have "compile U schema = Inl TypeError"
    by (auto simp: compile_def getProp_def)
  with assms(1,2) show ?thesis by (simp add: generateMermaidFromSchema_def)
qed

theorem missing_tables_fails_witness:
  "importModule (firstCall\<lparr>importModule := \<lambda>url. Inr (Obj [(''default'', Obj [])])\<rparr>)
     (schemaUrl (firstCall\<lparr>importModule := \<lambda>url. Inr (Obj [(''default'', Obj [])])\<rparr>)
        ''convex/schema.ts'') = Inr (Obj [(''default'', Obj [])]) \<and>
   getProp (Obj [(''default'', Obj [])]) ''default'' = Inr (Obj []) \<and>
   propOf (Obj []) ''tables'' = Undefined \<and>
   generateMermaidFromSchema sampleUpper
     (firstCall\<lparr>importModule := \<lambda>url. Inr (Obj [(''default'', Obj [])])\<rparr>)
     ''convex/schema.ts'' = Inl (Error ''Failed to load or parse schema: '' TypeError)"
proof -
  let ?w = "firstCall\<lparr>importModule := \<lambda>url. Inr (Obj [(''default'', Obj [])])\<rparr>"
  have i: "importModule ?w (schemaUrl ?w ''convex/schema.ts'') = Inr (Obj [(''default'', Obj [])])"
    by simp
  have d: "getProp (Obj [(''default'', Obj [])]) ''default'' = Inr (Obj [])"
    by (simp add: getProp_def)
  have t: "propOf (Obj []) ''tables'' = Undefined" by simp
  then have t': "Obj [] = Undefined \<or> Obj [] = Null \<or>
         propOf (Obj []) ''tables'' = Undefined \<or> propOf (Obj []) ''tables'' = Null"
    by simp
  from missing_tables_fails [OF i d t', of sampleUpper] i d t show ?thesis by simp
qed

text \<open>
  The claim as stated fails for a schema whose \<open>tables\<close> property is there and is not a
  collection of tables: for \<open>tables: 5\<close> the loop over \<open>Object.entries(tables)\<close> has
  nothing to do and the bare header is returned, with no error.
\<close>

theorem number_tables_compiles:
  "propOf (Obj [(''tables'', Number ''5'')]) ''tables'' = Number ''5'' \<and>
   generateMermaidFromSchema sampleUpper numberTablesCall ''convex/schema.ts'' =
     Inr ''erDiagram\<newline>''"
  by (simp add: generateMermaidFromSchema_def numberTablesCall_def getProp_def compile_def)

text \<open>
  C6 (cache busting), as the code has it. The module URL of a call is the file URL of the
  path followed by \<open>?update=\<close> and the clock reading in milliseconds. Two calls on the same
  path use different URLs exactly when their clock readings differ.
\<close>

theorem schemaUrl_differs_iff_clock_differs:
  "pathToFileURL_href w1 p1 = pathToFileURL_href w2 p2 \<Longrightarrow>
   (schemaUrl w1 p1 = schemaUrl w2 p2) = (Date_now w1 = Date_now w2)"
  by (auto simp: schemaUrl_def dest: showNat_inj)

theorem schemaUrl_differs_iff_clock_differs_witness:
  "pathToFileURL_href firstCall ''convex/schema.ts'' =
     pathToFileURL_href (secondCall\<lparr>Date_now := 1700000000001\<rparr>) ''convex/schema.ts'' \<and>
   schemaUrl firstCall ''convex/schema.ts'' \<noteq>
     schemaUrl (secondCall\<lparr>Date_now := 1700000000001\<rparr>) ''convex/schema.ts''"
proof -
  have h: "pathToFileURL_href firstCall ''convex/schema.ts'' =
     pathToFileURL_href (secondCall\<lparr>Date_now := 1700000000001\<rparr>) ''convex/schema.ts''"
    by (simp add: firstCall_def secondCall_def)
  from schemaUrl_differs_iff_clock_differs [OF h] h show ?thesis
    by (simp add: firstCall_def secondCall_def)
qed

text \<open>
  The claim as stated, that the URLs of any two calls differ, fails for two calls within
  the same millisecond: both import the same URL.
\<close>

theorem same_millisecond_same_url:
  "urlsUsed [firstCall, secondCall] ''convex/schema.ts'' =
     [''file:///app/convex/schema.ts?update=1700000000000'',
      ''file:///app/convex/schema.ts?update=1700000000000'']"
  by (simp add: urlsUsed_def firstCall_def secondCall_def schemaUrl_def showNat.simps digitChar_def)

section \<open>Claims about the broadcast\<close>

text \<open>
  C8 (broadcast after a change). When the diagram compiles, \<open>broadcastMermaid\<close> raises
  nothing and sends the fresh text exactly once to each member of \<open>wss.clients\<close> whose
  \<open>readyState\<close> is open, and nothing to the others; nothing else is sent.
\<close>

theorem broadcastMermaid_open_channels:
  assumes "generateMermaidFromSchema U w p = Inr mermaid"
    and "distinct (map channel clients)"
  shows "\<exists>new. broadcastMermaid U w p clients sent = Inr (sent @ new) \<and>
           (\<forall>c \<in> set clients.
              count_list new (channel c, mermaid) = (if readyState c = 1 then 1 else 0)) \<and>
           (\<forall>(ch, msg) \<in> set new.
              msg = mermaid \<and> (\<exists>c \<in> set clients. channel c = ch \<and> readyState c = 1))"
proof -
  let ?new = "map (\<lambda>c. (channel c, mermaid)) (filter (\<lambda>c. readyState c = 1) clients)"
  have "broadcastMermaid U w p clients sent = Inr (sent @ ?new)"
    using assms(1) by (simp add: broadcastMermaid_def sendLoop_eq)
  moreover have "\<forall>c \<in> set clients.
              count_list ?new (channel c, mermaid) = (if readyState c = 1 then 1 else 0)"
    by (intro ballI) (rule count_list_map_filter [OF assms(2)])
  moreover have "\<forall>(ch, msg) \<in> set ?new.
              msg = mermaid \<and> (\<exists>c \<in> set clients. channel c = ch \<and> readyState c = 1)"
    by auto
  ultimately show ?thesis by blast
qed

theorem broadcastMermaid_open_channels_witness:
  "generateMermaidFromSchema sampleUpper firstCall ''convex/schema.ts'' = Inr testDiagram \<and>
   distinct (map channel [\<lparr>channel = 1, readyState = 1\<rparr>, \<lparr>channel = 2, readyState = 3\<rparr>,
                          \<lparr>channel = 3, readyState = 1\<rparr>]) \<and>
   (\<exists>new. broadcastMermaid sampleUpper firstCall ''convex/schema.ts''
            [\<lparr>channel = 1, readyState = 1\<rparr>, \<lparr>channel = 2, readyState = 3\<rparr>,
             \<lparr>channel = 3, readyState = 1\<rparr>] [] = Inr new \<and>
          count_list new (1, testDiagram) = 1 \<and>
          count_list new (2, testDiagram) = 0 \<and>
          count_list new (3, testDiagram) = 1)"
proof -
  let ?cs = "[\<lparr>channel = 1, readyState = 1\<rparr>, \<lparr>channel = 2, readyState = 3\<rparr>,
              \<lparr>channel = 3, readyState = 1\<rparr>]"
  have d: "distinct (map channel ?cs)" by simp
  from broadcastMermaid_open_channels [OF generate_firstCall d, of sampleUpper "[]"]
  obtain new where b: "broadcastMermaid sampleUpper firstCall ''convex/schema.ts'' ?cs [] = Inr new"
    and c: "\<forall>c \<in> set ?cs.
              count_list new (channel c, testDiagram) = (if readyState c = 1 then 1 else 0)"
    by auto
  from c have "count_list new (1, testDiagram) = 1 \<and> count_list new (2, testDiagram) = 0 \<and>
          count_list new (3, testDiagram) = 1"
    by simp
  with b generate_firstCall [of sampleUpper] d show ?thesis by blast
qed

section \<open>Claims about references without a table name\<close>

text \<open>
  C10 (references without a table name). A validator of kind \<open>id\<close> whose \<open>tableName\<close> is
  missing or empty (or falsy in any other way) is labelled by the \<open>id(...)\<close> rule on the
  raw value, \<open>id(undefined)\<close> or \<open>id()\<close>, and its field leaves the relationship list as it
  was. So, whatever the schema, when it compiles every relationship has a non-empty string
  as its \<open>to\<close>.
\<close>

theorem id_without_table_name:
  "(propOf validator ''kind'' = Str ''id'' \<and> \<not> truthy (propOf validator ''tableName'') \<longrightarrow>
      (\<exists>s. ToString (propOf validator ''tableName'') = Inr s \<and>
           getFieldType validator = Inr (Str (''id('' @ s @ '')'')) \<and>
           fieldsLoop t ((f, validator) # rest) (m, rels) =
             fieldsLoop t rest (m @ ''    id('' @ s @ '') '' @ f @ ''\<newline>'', rels))) \<and>
   (compile U schema = Inr (mermaid, rels') \<longrightarrow>
      (\<forall>r \<in> set rels'. \<exists>n. rel_to r = Str n \<and> n \<noteq> []))"
proof (intro conjI impI)
  assume a: "propOf validator ''kind'' = Str ''id'' \<and> \<not> truthy (propOf validator ''tableName'')"
  then obtain ps where v: "validator = Obj ps" by (cases validator) auto
  from a obtain s where s: "ToString (propOf validator ''tableName'') = Inr s"
    using ToString_falsy by blast
  from a v s have g: "getFieldType validator = Inr (Str (''id('' @ s @ '')''))"
    by (simp add: getFieldType_Obj)
  from a v s have "fieldsLoop t ((f, validator) # rest) (m, rels) =
        fieldsLoop t rest (m @ ''    id('' @ s @ '') '' @ f @ ''\<newline>'', rels)"
    by (simp add: getFieldType_Obj getProp_def)
  with s g show "\<exists>s. ToString (propOf validator ''tableName'') = Inr s \<and>
           getFieldType validator = Inr (Str (''id('' @ s @ '')'')) \<and>
           fieldsLoop t ((f, validator) # rest) (m, rels) =
             fieldsLoop t rest (m @ ''    id('' @ s @ '') '' @ f @ ''\<newline>'', rels)"
    by blast
next
  assume "compile U schema = Inr (mermaid, rels')"
  from compile_rel_to [OF this] show "\<forall>r \<in> set rels'. \<exists>n. rel_to r = Str n \<and> n \<noteq> []"
    by (simp add: list_all_iff)
qed

theorem id_without_table_name_witness:
  "propOf (Obj [(''kind'', Str ''id'')]) ''kind'' = Str ''id'' \<and>
   \<not> truthy (propOf (Obj [(''kind'', Str ''id'')]) ''tableName'') \<and>
   getFieldType (Obj [(''kind'', Str ''id'')]) = Inr (Str ''id(undefined)'') \<and>
   fieldsLoop ''messages'' [(''user'', Obj [(''kind'', Str ''id'')])] (''MESSAGES {\<newline>'', []) =
     Inr (''MESSAGES {\<newline>    id(undefined) user\<newline>'', []) \<and>
   compile sampleUpper (schemaToJs testSchema) =
     Inr (testDiagram, [\<lparr>rel_from = ''messages'', rel_to = Str ''users'', rel_field = ''user''\<rparr>]) \<and>
   (\<exists>n. rel_to \<lparr>rel_from = ''messages'', rel_to = Str ''users'', rel_field = ''user''\<rparr> = Str n \<and>
        n \<noteq> [])"
proof -
  let ?v = "Obj [(''kind'', Str ''id'')]"
  let ?r = "\<lparr>rel_from = ''messages'', rel_to = Str ''users'', rel_field = ''user''\<rparr>"
  have k: "propOf ?v ''kind'' = Str ''id'' \<and> \<not> truthy (propOf ?v ''tableName'')" by simp
  have c: "compile sampleUpper (schemaToJs testSchema) = Inr (testDiagram, [?r])"
    by (rule testSchema_compiles)
  note t = id_without_table_name [where validator = "?v" and t = "''messages''" and f = "''user''"
      and rest = "[]" and m = "''MESSAGES {\<newline>''" and rels = "[]" and U = sampleUpper
      and schema = "schemaToJs testSchema" and mermaid = testDiagram and rels' = "[?r]"]
  from t k obtain s where s: "ToString (propOf ?v ''tableName'') = Inr s"
    and g: "getFieldType ?v = Inr (Str (''id('' @ s @ '')''))"
    and l: "fieldsLoop ''messages'' [(''user'', ?v)] (''MESSAGES {\<newline>'', []) =
       fieldsLoop ''messages'' [] (''MESSAGES {\<newline>'' @ ''    id('' @ s @ '') '' @ ''user'' @ ''\<newline>'', [])"
    by blast
  from s have s': "s = ''undefined''" by simp
  from g s' have g': "getFieldType ?v = Inr (Str ''id(undefined)'')" by simp
  from l s' have l': "fieldsLoop ''messages'' [(''user'', ?v)] (''MESSAGES {\<newline>'', []) =
     Inr (''MESSAGES {\<newline>    id(undefined) user\<newline>'', [])"
    by (simp only: fieldsLoop.simps(1)) simp
  from t c have "\<exists>n. rel_to ?r = Str n \<and> n \<noteq> []" by simp
  with g' l' show ?thesis using k c by simp
qed

end
